theory Spec2Isabelle
  imports Complex_Main
begin

section \<open>JavaScript values, plain objects and DOM elements\<close>

text \<open>
  The viewer (\<^verbatim>\<open>flag.jsx\<close>, \<^verbatim>\<open>colorPicker.jsx\<close>, \<^verbatim>\<open>App.jsx\<close>) only moves
  strings, \<^verbatim>\<open>null\<close> and \<^verbatim>\<open>undefined\<close> around. \<open>Builtin k\<close> stands for the member
  \<open>k\<close> that every plain object inherits from \<^verbatim>\<open>Object.prototype\<close>.
\<close>

datatype jsval = Undefined | Null | Str string | Builtin string

fun truthy :: "jsval \<Rightarrow> bool" where
  "truthy Undefined = False"
| "truthy Null = False"
| "truthy (Str s) = (s \<noteq> [])"
| "truthy (Builtin k) = True"

text \<open>The string conversion that \<^verbatim>\<open>setAttribute\<close> and property keys apply to a value.\<close>

fun ToString :: "jsval \<Rightarrow> string" where
  "ToString Undefined = ''undefined''"
| "ToString Null = ''null''"
| "ToString (Str s) = s"
| "ToString (Builtin k) =
     (if k = ''__proto__'' then ''[object Object]''
      else ''function '' @ (if k = ''constructor'' then ''Object'' else k) @ ''() { [native code] }'')"

text \<open>
  A plain object \<^verbatim>\<open>{}\<close> used as a dictionary: its own properties are a map, and a
  read that finds no own property continues in \<^verbatim>\<open>Object.prototype\<close>.
\<close>

definition Object_prototype_keys :: "string list" where
  "Object_prototype_keys =
     [''constructor'', ''__defineGetter__'', ''__defineSetter__'', ''hasOwnProperty'',
      ''__lookupGetter__'', ''__lookupSetter__'', ''isPrototypeOf'', ''propertyIsEnumerable'',
      ''toString'', ''valueOf'', ''__proto__'', ''toLocaleString'']"

datatype 'v property = Own 'v | Inherited | Absent

definition get_property :: "(string \<rightharpoonup> 'v) \<Rightarrow> string \<Rightarrow> 'v property" where
  "get_property obj k =
     (case obj k of
        Some v \<Rightarrow> Own v
      | None \<Rightarrow> if k \<in> set Object_prototype_keys then Inherited else Absent)"

definition get_value :: "(string \<rightharpoonup> jsval) \<Rightarrow> string \<Rightarrow> jsval" where
  "get_value obj k =
     (case get_property obj k of Own v \<Rightarrow> v | Inherited \<Rightarrow> Builtin k | Absent \<Rightarrow> Undefined)"

text \<open>
  An element of the injected SVG: its class list, its attributes and its parent. The
  document is the sequence of its elements in document order; an element handle is its
  position, and \<open>parentNode\<close> is the position of the enclosing element (\<open>None\<close> for
  a child of the \<^verbatim>\<open>svg\<close> root).
\<close>

record element =
  classList :: "string list"
  attributes :: "string \<rightharpoonup> string"
  parentNode :: "nat option"

definition getAttribute :: "element \<Rightarrow> string \<Rightarrow> jsval" where
  "getAttribute e n = (case attributes e n of None \<Rightarrow> Null | Some v \<Rightarrow> Str v)"

definition setAttribute :: "element \<Rightarrow> string \<Rightarrow> jsval \<Rightarrow> element" where
  "setAttribute e n v = e\<lparr>attributes := (attributes e)(n \<mapsto> ToString v)\<rparr>"

definition is_flag_component :: "element \<Rightarrow> bool" where
  "is_flag_component e = (''flag-component'' \<in> set (classList e))"

text \<open>\<^verbatim>\<open>svgElement.querySelectorAll('.flag-component')\<close>: a static list, in document order.\<close>

definition querySelectorAll :: "element list \<Rightarrow> nat list" where
  "querySelectorAll els = filter (\<lambda>i. is_flag_component (els ! i)) [0..<length els]"

text \<open>\<^verbatim>\<open>Array.prototype.pop\<close>: the last entry, or \<^verbatim>\<open>undefined\<close> on an empty array.\<close>

definition pop :: "string list \<Rightarrow> jsval \<times> string list" where
  "pop xs = (if xs = [] then (Undefined, []) else (Str (last xs), butlast xs))"

section \<open>The Flag component\<close>

datatype js_error = TypeError

record component =
  c_el :: nat
  c_id :: jsval
  c_color :: jsval

text \<open>
  A click listener is the closure registered on element \<open>l_el\<close>; it captured that
  element, its \<open>id\<close> and its \<open>fill\<close> as read at load time.
\<close>

record listener =
  l_el :: nat
  l_id :: jsval
  l_color :: jsval

record flag_state =
  svg :: "element list"
  listeners :: "listener list"
  flagComponents :: "string \<rightharpoonup> component list"
  loading :: bool
  selectedColorRef :: jsval

text \<open>The effect on \<open>[selectedColor]\<close>: \<^verbatim>\<open>selectedColorRef.current = selectedColor\<close>.\<close>

definition selectedColor_effect :: "jsval \<Rightarrow> flag_state \<Rightarrow> flag_state" where
  "selectedColor_effect c s = s\<lparr>selectedColorRef := c\<rparr>"

text \<open>One pass of the \<^verbatim>\<open>forEach\<close> body of \<open>componentClick\<close>.\<close>

definition repaint_if_same_id :: "jsval \<Rightarrow> jsval \<Rightarrow> nat \<Rightarrow> element list \<Rightarrow> element list" where
  "repaint_if_same_id ident c n els =
     (if getAttribute (els ! n) ''id'' = ident
      then els[n := setAttribute (els ! n) ''fill'' c]
      else els)"

definition componentClick :: "nat \<Rightarrow> jsval \<Rightarrow> jsval \<Rightarrow> flag_state \<Rightarrow> flag_state" where
  "componentClick component ident color s =
     (if truthy ident
      then s\<lparr>svg := fold (repaint_if_same_id ident (selectedColorRef s))
                         (querySelectorAll (svg s)) (svg s)\<rparr>
      else s\<lparr>svg := (svg s)[component :=
                         setAttribute (svg s ! component) ''fill'' (selectedColorRef s)]\<rparr>)"

text \<open>
  The enclosing elements of element \<open>i\<close>, innermost first. In document order a parent
  precedes its children, which is what makes the walk end.
\<close>

function ancestors :: "element list \<Rightarrow> nat \<Rightarrow> nat list" where
  "ancestors els i =
     (case parentNode (els ! i) of
        None \<Rightarrow> []
      | Some p \<Rightarrow> if p < i then p # ancestors els p else [])"
  by pat_completeness auto
termination
  by (relation "measure snd") auto

declare ancestors.simps [simp del]

text \<open>
  A user click on element \<open>i\<close>. No listener stops the propagation, so the event
  visits the target and then each enclosing element, and runs at each of them the
  listeners registered on it, in the order of their registration.
\<close>

definition propagation_path :: "element list \<Rightarrow> nat \<Rightarrow> nat list" where
  "propagation_path els i = i # ancestors els i"

definition listeners_on :: "flag_state \<Rightarrow> nat \<Rightarrow> listener list" where
  "listeners_on s n = filter (\<lambda>l. l_el l = n) (listeners s)"

definition click :: "nat \<Rightarrow> flag_state \<Rightarrow> flag_state" where
  "click i s =
     fold (\<lambda>l. componentClick (l_el l) (l_id l) (l_color l))
          (concat (map (listeners_on s) (propagation_path (svg s) i))) s"

subsection \<open>First-load grouping: \<open>extractSvgData\<close>\<close>

text \<open>The locals of \<open>extractSvgData\<close> together with the DOM it mutates.\<close>

record extract_state =
  x_svg :: "element list"
  x_listeners :: "listener list"
  grays :: "string list"
  newFlagComponents :: "string \<rightharpoonup> component list"
  usedGreys :: "string \<rightharpoonup> jsval"

definition initial_grays :: "string list" where
  "initial_grays = [''#808080'', ''#909090'', ''#9D9D9D'', ''#A7A7A7'']"

text \<open>
  Lines 45 to 58. The spread \<^verbatim>\<open>...newFlagComponents[id]\<close> of an inherited member (a
  function, or \<^verbatim>\<open>Object.prototype\<close> itself) is not iterable and throws.
\<close>

definition group_component ::
  "component \<Rightarrow> (string \<rightharpoonup> component list) \<Rightarrow> js_error + (string \<rightharpoonup> component list)" where
  "group_component c m =
     (let key = ToString (c_id c) in
      case get_property m key of
        Own cs \<Rightarrow> if truthy (c_id c) then Inr (m(key \<mapsto> c # cs)) else Inr (m(key \<mapsto> [c]))
      | Inherited \<Rightarrow> if truthy (c_id c) then Inl TypeError else Inr (m(key \<mapsto> [c]))
      | Absent \<Rightarrow> Inr (m(key \<mapsto> [c])))"

text \<open>Lines 59 to 71, without the two \<^verbatim>\<open>console.log\<close> calls.\<close>

definition assign_gray :: "nat \<Rightarrow> jsval \<Rightarrow> extract_state \<Rightarrow> extract_state" where
  "assign_gray i ident s =
     (if truthy ident then
        let k = ToString ident;
            s1 = (if \<not> truthy (get_value (usedGreys s) k)
                  then s\<lparr>grays := snd (pop (grays s)),
                         usedGreys := (usedGreys s)(k \<mapsto> fst (pop (grays s)))\<rparr>
                  else s)
        in s1\<lparr>x_svg := (x_svg s1)[i := setAttribute (x_svg s1 ! i) ''fill''
                                         (get_value (usedGreys s1) k)]\<rparr>
      else
        s\<lparr>grays := snd (pop (grays s)),
          x_svg := (x_svg s)[i := setAttribute (x_svg s ! i) ''fill'' (fst (pop (grays s)))]\<rparr>)"

definition extract_step :: "nat \<Rightarrow> extract_state \<Rightarrow> js_error + extract_state" where
  "extract_step i s =
     (let color = getAttribute (x_svg s ! i) ''fill'';
          ident = getAttribute (x_svg s ! i) ''id''
      in case group_component \<lparr>c_el = i, c_id = ident, c_color = color\<rparr> (newFlagComponents s) of
           Inl err \<Rightarrow> Inl err
         | Inr m \<Rightarrow>
             Inr ((assign_gray i ident (s\<lparr>newFlagComponents := m\<rparr>))
                    \<lparr>x_listeners := x_listeners s @ [\<lparr>l_el = i, l_id = ident, l_color = color\<rparr>]\<rparr>))"

text \<open>
  The \<^verbatim>\<open>forEach\<close>: an exception leaves the loop at once, keeping what earlier
  iterations did to the DOM.
\<close>

fun forEach_extract :: "nat list \<Rightarrow> extract_state \<Rightarrow> js_error option \<times> extract_state" where
  "forEach_extract [] s = (None, s)"
| "forEach_extract (i # ns) s =
     (case extract_step i s of
        Inl err \<Rightarrow> (Some err, s)
      | Inr s' \<Rightarrow> forEach_extract ns s')"

definition extract_init :: "flag_state \<Rightarrow> extract_state" where
  "extract_init s =
     \<lparr>x_svg = svg s, x_listeners = listeners s, grays = initial_grays,
      newFlagComponents = Map.empty, usedGreys = Map.empty\<rparr>"

definition extractSvgData :: "flag_state \<Rightarrow> js_error option \<times> flag_state" where
  "extractSvgData s =
     (case forEach_extract (querySelectorAll (svg s)) (extract_init s) of
        (Some err, x) \<Rightarrow> (Some err, s\<lparr>svg := x_svg x, listeners := x_listeners x\<rparr>)
      | (None, x) \<Rightarrow>
          (None, s\<lparr>svg := x_svg x, listeners := x_listeners x,
                   flagComponents := newFlagComponents x, loading := False\<rparr>))"

text \<open>
  The component as mounted for a freshly injected document: no listeners yet, hidden
  (\<open>loading\<close>), and the ref holding the colour selected at that time.
\<close>

definition Flag_mounted :: "element list \<Rightarrow> jsval \<Rightarrow> flag_state" where
  "Flag_mounted doc c =
     \<lparr>svg = doc, listeners = [], flagComponents = Map.empty, loading = True,
      selectedColorRef = c\<rparr>"

subsection \<open>Events after the load\<close>

text \<open>
  After a load the component sees two kinds of event: the selected colour changes (the
  effect copies it into the ref) and the user clicks an element.
\<close>

datatype flag_event = ColourSelected jsval | Clicked nat

fun apply_event :: "flag_event \<Rightarrow> flag_state \<Rightarrow> flag_state" where
  "apply_event (ColourSelected c) s = selectedColor_effect c s"
| "apply_event (Clicked i) s = click i s"

section \<open>App and ColourPicker\<close>

text \<open>
  \<open>App\<close> holds \<open>flag\<close> and \<open>color\<close>, \<open>ColourPicker\<close> holds its own
  \<open>selectedColor\<close>; \<open>selectColor_calls\<close> records the arguments with which the
  \<open>selectColor\<close> prop was invoked, oldest first.
\<close>

record app_state =
  flag :: string
  color :: jsval
  picker_selectedColor :: jsval
  selectColor_calls :: "jsval list"
  view :: flag_state

text \<open>
  The first render, before any effect has run: \<^verbatim>\<open>useState('ua')\<close>,
  \<^verbatim>\<open>useState('#FFFFFF')\<close>, \<^verbatim>\<open>useState(null)\<close> and, in \<open>Flag\<close>,
  \<^verbatim>\<open>useRef(selectedColor)\<close> and \<^verbatim>\<open>useState(true)\<close>; no SVG is injected yet.
\<close>

definition App_first_render :: app_state where
  "App_first_render =
     \<lparr>flag = ''ua'', color = Str ''#FFFFFF'', picker_selectedColor = Null,
      selectColor_calls = [], view = Flag_mounted [] (Str ''#FFFFFF'')\<rparr>"

text \<open>
  \<open>setColor\<close> with the re-render it causes: \<open>Flag\<close> receives the new
  \<open>selectedColor\<close> prop and its effect stores it in the ref.
\<close>

definition setColor :: "jsval \<Rightarrow> app_state \<Rightarrow> app_state" where
  "setColor c a = a\<lparr>color := c, view := selectedColor_effect c (view a)\<rparr>"

text \<open>The prop \<^verbatim>\<open>selectColor={(color) => setColor(color)}\<close>.\<close>

definition selectColor :: "jsval \<Rightarrow> app_state \<Rightarrow> app_state" where
  "selectColor c a = setColor c (a\<lparr>selectColor_calls := selectColor_calls a @ [c]\<rparr>)"

text \<open>The picker's effect on \<open>[selectedColor]\<close>.\<close>

definition ColourPicker_effect :: "app_state \<Rightarrow> app_state" where
  "ColourPicker_effect a = selectColor (picker_selectedColor a) a"

text \<open>
  Mounting runs the effects once, children in order: the two effects of \<open>Flag\<close>
  (\<^verbatim>\<open>setLoading(true)\<close>, then the ref), then the effect of \<open>ColourPicker\<close>.
\<close>

definition App_mounted :: app_state where
  "App_mounted =
     ColourPicker_effect
       (App_first_render\<lparr>view :=
          selectedColor_effect (color App_first_render)
            ((view App_first_render)\<lparr>loading := True\<rparr>)\<rparr>)"

text \<open>
  A swatch's \<^verbatim>\<open>onClick\<close>: \<^verbatim>\<open>setSelectedColor(color)\<close>. Setting the value the
  state already has causes no render, so the effect does not run again.
\<close>

definition setSelectedColor :: "jsval \<Rightarrow> app_state \<Rightarrow> app_state" where
  "setSelectedColor c a =
     (if picker_selectedColor a = c then a
      else ColourPicker_effect (a\<lparr>picker_selectedColor := c\<rparr>))"

datatype app_event =
    SwatchClicked string
  | CountrySelected string
  | SvgInjected "element list"
  | ShapeClicked nat

text \<open>
  \<open>SvgInjected doc\<close> is \<^verbatim>\<open>afterInjection\<close> followed by the timeout of
  \<open>loadFlag\<close>: the injected elements are new, so they carry no listeners, and
  \<open>extractSvgData\<close> runs on them. An exception there is lost in the timer callback.
\<close>

fun app_step :: "app_event \<Rightarrow> app_state \<Rightarrow> app_state" where
  "app_step (SwatchClicked c) a = setSelectedColor (Str c) a"
| "app_step (CountrySelected cc) a =
     (if cc = flag a then a else a\<lparr>flag := cc, view := (view a)\<lparr>loading := True\<rparr>\<rparr>)"
| "app_step (SvgInjected doc) a =
     a\<lparr>view := snd (extractSvgData ((view a)\<lparr>svg := doc, listeners := []\<rparr>))\<rparr>"
| "app_step (ShapeClicked i) a = a\<lparr>view := click i (view a)\<rparr>"

fun is_swatch_click :: "app_event \<Rightarrow> bool" where
  "is_swatch_click (SwatchClicked c) = True"
| "is_swatch_click ev = False"

section \<open>Notions used to state the properties of the viewer\<close>

text \<open>
  The identity group of a shape: the shapes with the same non-empty \<open>id\<close>, or the shape
  alone when it has none.
\<close>

datatype group = Identity string | Single nat

definition group_of :: "element list \<Rightarrow> nat \<Rightarrow> group" where
  "group_of els i =
     (if truthy (getAttribute (els ! i) ''id'')
      then Identity (ToString (getAttribute (els ! i) ''id''))
      else Single i)"

text \<open>The distinct entries of a list, in the order of their first occurrence.\<close>

definition first_occurrences :: "'a list \<Rightarrow> 'a list" where
  "first_occurrences xs = fold (\<lambda>x acc. if x \<in> set acc then acc else acc @ [x]) xs []"

definition index_of :: "'a \<Rightarrow> 'a list \<Rightarrow> nat" where
  "index_of x xs = length (takeWhile (\<lambda>y. y \<noteq> x) xs)"

definition seen_groups :: "element list \<Rightarrow> nat list \<Rightarrow> group list" where
  "seen_groups doc P = first_occurrences (map (group_of doc) P)"

definition shape_groups :: "element list \<Rightarrow> group list" where
  "shape_groups els = seen_groups els (querySelectorAll els)"

definition group_index :: "element list \<Rightarrow> nat \<Rightarrow> nat" where
  "group_index els i = index_of (group_of els i) (shape_groups els)"

text \<open>What the \<open>m\<close>-th \<open>pop\<close> (counting from 0) on the gray palette returns.\<close>

definition popped :: "nat \<Rightarrow> jsval" where
  "popped m = (if m < length initial_grays then Str (rev initial_grays ! m) else Undefined)"

text \<open>No shape's \<open>id\<close> is the name of a member of \<^verbatim>\<open>Object.prototype\<close>.\<close>

definition no_inherited_ids :: "element list \<Rightarrow> bool" where
  "no_inherited_ids els =
     (\<forall>i \<in> set (querySelectorAll els).
        ToString (getAttribute (els ! i) ''id'') \<notin> set Object_prototype_keys)"

text \<open>
  The loop invariant of \<open>extractSvgData\<close> after the shapes \<open>P\<close> have been visited, for
  a document without inherited ids.
\<close>

definition extract_inv :: "element list \<Rightarrow> nat list \<Rightarrow> extract_state \<Rightarrow> bool" where
  "extract_inv doc P x \<longleftrightarrow>
     length (x_svg x) = length doc \<and>
     grays x = take (length initial_grays - length (seen_groups doc P)) initial_grays \<and>
     (\<forall>k. usedGreys x k =
            (if Identity k \<in> set (seen_groups doc P)
             then Some (popped (index_of (Identity k) (seen_groups doc P))) else None)) \<and>
     (\<forall>j<length doc. x_svg x ! j =
            (if j \<in> set P
             then setAttribute (doc ! j) ''fill''
                    (popped (index_of (group_of doc j) (seen_groups doc P)))
             else doc ! j))"

text \<open>Class, \<open>id\<close> and parent of every element agree in two versions of a document.\<close>

definition same_shapes :: "element list \<Rightarrow> element list \<Rightarrow> bool" where
  "same_shapes a b \<longleftrightarrow>
     length b = length a \<and>
     (\<forall>j<length a. is_flag_component (b ! j) = is_flag_component (a ! j) \<and>
                    getAttribute (b ! j) ''id'' = getAttribute (a ! j) ''id'' \<and>
                    parentNode (b ! j) = parentNode (a ! j))"

text \<open>
  The state of a loaded document: every shape carries a listener, and every listener
  captured the \<open>id\<close> of the element it is registered on.
\<close>

definition wired :: "element list \<Rightarrow> flag_state \<Rightarrow> bool" where
  "wired doc s \<longleftrightarrow>
     same_shapes doc (svg s) \<and>
     map l_el (listeners s) = querySelectorAll doc \<and>
     (\<forall>l \<in> set (listeners s). l_id l = getAttribute (doc ! l_el l) ''id'')"

definition no_colour_picked :: "app_state \<Rightarrow> bool" where
  "no_colour_picked a \<longleftrightarrow>
     picker_selectedColor a = Null \<and> selectColor_calls a = [Null] \<and> color a = Null \<and>
     selectedColorRef (view a) = Null"

subsection \<open>Example documents\<close>

definition flag_shape :: "(string \<times> string) list \<Rightarrow> element" where
  "flag_shape as =
     \<lparr>classList = [''flag-component''], attributes = map_of as, parentNode = None\<rparr>"

text \<open>A field, a crescent drawn as two paths sharing an \<open>id\<close>, and a star without one.\<close>

definition crescent_flag :: "element list" where
  "crescent_flag =
     [flag_shape [(''id'', ''field''), (''fill'', ''#C8102E'')],
      flag_shape [(''id'', ''moon''), (''fill'', ''#FFFFFF'')],
      flag_shape [(''id'', ''moon''), (''fill'', ''#FFFFFF'')],
      flag_shape [(''fill'', ''#FFFFFF'')]]"

definition five_stripes :: "element list" where
  "five_stripes =
     [flag_shape [(''fill'', ''#CE1126'')], flag_shape [(''fill'', ''#FFFFFF'')],
      flag_shape [(''fill'', ''#0C1C8C'')], flag_shape [(''fill'', ''#FFFFFF'')],
      flag_shape [(''fill'', ''#3A7728'')]]"

definition two_stripes :: "element list" where
  "two_stripes = [flag_shape [(''fill'', ''#0057B7'')], flag_shape [(''fill'', ''#FFD700'')]]"

text \<open>A group element that is itself a shape, and a disc inside it; neither has an \<open>id\<close>.\<close>

definition nested_flag :: "element list" where
  "nested_flag =
     [flag_shape [(''fill'', ''#D82126'')],
      (flag_shape [(''fill'', ''#F8E92E'')])\<lparr>parentNode := Some 0\<rparr>]"

definition constructor_flag :: "element list" where
  "constructor_flag = [flag_shape [(''id'', ''constructor''), (''fill'', ''#C8102E'')]]"

definition valueOf_flag :: "element list" where
  "valueOf_flag =
     [flag_shape [(''id'', ''a''), (''fill'', ''#CE1126'')],
      flag_shape [(''id'', ''b''), (''fill'', ''#FFFFFF'')],
      flag_shape [(''id'', ''c''), (''fill'', ''#0C1C8C'')],
      flag_shape [(''id'', ''d''), (''fill'', ''#FFFFFF'')],
      flag_shape [(''id'', ''valueOf''), (''fill'', ''#3A7728'')]]"

section \<open>The flag generator\<close>

text \<open>
  The generator script \<^verbatim>\<open>create_flag.py\<close> is called by \<^verbatim>\<open>generate_flags.sh\<close> but
  is not among the sources. Its layout engine is modelled from section 4.2 of the
  specification, over exact real numbers.
\<close>

text \<open>Modelled from the spec: the orientation of a \<open>StripeSet\<close> of \<^verbatim>\<open>create_flag.py\<close>.\<close>

datatype orientation = Vertical | Horizontal

text \<open>Modelled from the spec: the alignment of a \<open>Side\<close> of \<^verbatim>\<open>create_flag.py\<close>.\<close>

datatype alignment = Left | Right

text \<open>Modelled from the spec: the directives of \<^verbatim>\<open>create_flag.py\<close> (section 3), with
  their parameters in the order given there.
\<close>

datatype directive =
    StripeSet orientation "real list"
  | Cross real real real real
  | Circle real real real
  | Rect real real real real
  | Triangle "(real \<times> real) list"
  | Canton real real
  | Side real nat alignment
  | Star nat real real real real
  | Moon real real real real real real

text \<open>Modelled from the spec: the shapes \<^verbatim>\<open>create_flag.py\<close> emits, one per region
  (a region is one fillable shape or shape group). A rectangle is \<open>x y w h\<close>; the
  vertical and the horizontal bar of a cross form one group and keep the parameters of
  the directive; a crescent keeps the parameters of its two disks.
\<close>

datatype shape =
    Rectangle real real real real
  | Bars real real real real
  | Disc real real real
  | Polygon "(real \<times> real) list"
  | Crescent real real real real real real

text \<open>Modelled from the spec: the canvas of \<^verbatim>\<open>create_flag.py\<close>, in abstract units.\<close>

record canvas =
  width :: real
  height :: real

text \<open>Modelled from the spec: a shape of \<^verbatim>\<open>create_flag.py\<close> with the colour it claimed.\<close>

record region =
  r_shape :: shape
  r_fill :: string

text \<open>Modelled from the spec: the error kinds of \<^verbatim>\<open>create_flag.py\<close> (section 7).\<close>

datatype gen_error = InvalidArgument | UnsupportedDirective | InsufficientColours | WriteError

text \<open>Modelled from the spec: the stripe layout of \<^verbatim>\<open>create_flag.py\<close>. Each segment
  starts where the previous one ended and extends over
  canvas dimension \<open>\<times>\<close> ratio \<open>/\<close> sum of the ratios.
\<close>

fun segments :: "real \<Rightarrow> real \<Rightarrow> real \<Rightarrow> real list \<Rightarrow> (real \<times> real) list" where
  "segments extent ratio_sum start [] = []"
| "segments extent ratio_sum start (r # rs) =
     (start, extent * r / ratio_sum) #
       segments extent ratio_sum (start + extent * r / ratio_sum) rs"

text \<open>Modelled from the spec: the segments of a \<open>StripeSet\<close> of \<^verbatim>\<open>create_flag.py\<close>.\<close>

definition stripe_segments :: "real \<Rightarrow> real list \<Rightarrow> (real \<times> real) list" where
  "stripe_segments extent ratios = segments extent (sum_list ratios) 0 ratios"

text \<open>Modelled from the spec: vertex \<open>k\<close> of a star of \<^verbatim>\<open>create_flag.py\<close>. Outer and
  inner radius alternate, at angles spaced by half a point from \<open>rotationDegrees\<close>. The
  spec does not say how the inner radius \<open>ri\<close> is computed, so it is a parameter.
\<close>

definition star_vertex ::
  "real \<Rightarrow> real \<Rightarrow> real \<Rightarrow> real \<Rightarrow> real \<Rightarrow> nat \<Rightarrow> nat \<Rightarrow> real \<times> real" where
  "star_vertex ri cx cy r rotationDegrees points k =
     (let rho = (if even k then r else ri);
          theta = rotationDegrees * pi / 180 + real k * pi / real points
      in (cx + rho * cos theta, cy + rho * sin theta))"

text \<open>Modelled from the spec: the polygon of a star of \<^verbatim>\<open>create_flag.py\<close>.\<close>

definition star_vertices ::
  "real \<Rightarrow> nat \<Rightarrow> real \<Rightarrow> real \<Rightarrow> real \<Rightarrow> real \<Rightarrow> (real \<times> real) list" where
  "star_vertices ri points cx cy r rotationDegrees =
     map (star_vertex ri cx cy r rotationDegrees points) [0..<2 * points]"

text \<open>Modelled from the spec: the shapes each directive of \<^verbatim>\<open>create_flag.py\<close>
  produces, one per fillable region (section 4.2). \<open>inner_radius\<close> computes a star's
  inner radius from its number of points and outer radius.
\<close>

fun shapes_of :: "(nat \<Rightarrow> real \<Rightarrow> real) \<Rightarrow> canvas \<Rightarrow> directive \<Rightarrow> shape list" where
  "shapes_of inner_radius cv (StripeSet Vertical ratios) =
     map (\<lambda>(x, w). Rectangle x 0 w (height cv)) (stripe_segments (width cv) ratios)"
| "shapes_of inner_radius cv (StripeSet Horizontal ratios) =
     map (\<lambda>(y, h). Rectangle 0 y (width cv) h) (stripe_segments (height cv) ratios)"
| "shapes_of inner_radius cv (Cross armWidth armHeight thicknessA thicknessB) =
     [Bars armWidth armHeight thicknessA thicknessB]"
| "shapes_of inner_radius cv (Circle cx cy radius) = [Disc cx cy radius]"
| "shapes_of inner_radius cv (Rect x y w h) = [Rectangle x y w h]"
| "shapes_of inner_radius cv (Triangle pts) = [Polygon pts]"
| "shapes_of inner_radius cv (Canton w h) = [Rectangle 0 0 w h]"
| "shapes_of inner_radius cv (Side w n a) =
     map (\<lambda>k. Rectangle (case a of Left \<Rightarrow> 0 | Right \<Rightarrow> width cv - w)
                         (real k * height cv / real n) w (height cv / real n)) [0..<n]"
| "shapes_of inner_radius cv (Star points cx cy r rot) =
     [Polygon (star_vertices (inner_radius points r) points cx cy r rot)]"
| "shapes_of inner_radius cv (Moon cx cy outerRadius offsetX offsetY innerRadius) =
     [Crescent cx cy outerRadius offsetX offsetY innerRadius]"

text \<open>Modelled from the spec: the colour cursor of \<^verbatim>\<open>create_flag.py\<close>. Each shape
  claims the next unclaimed colour; \<open>InsufficientColours\<close> is raised when the list is
  exhausted before a claim. The unclaimed colours are returned.
\<close>

fun claim_colours :: "shape list \<Rightarrow> string list \<Rightarrow> gen_error + region list \<times> string list" where
  "claim_colours [] cs = Inr ([], cs)"
| "claim_colours (sh # shs) [] = Inl InsufficientColours"
| "claim_colours (sh # shs) (c # cs) =
     (case claim_colours shs cs of
        Inl e \<Rightarrow> Inl e
      | Inr (rs, rest) \<Rightarrow> Inr (\<lparr>r_shape = sh, r_fill = c\<rparr> # rs, rest))"

text \<open>Modelled from the spec: the directives of \<^verbatim>\<open>create_flag.py\<close> laid out one after the
  other, colours consumed strictly in the order given.
\<close>

fun lay_out_directives ::
  "(nat \<Rightarrow> real \<Rightarrow> real) \<Rightarrow> canvas \<Rightarrow> directive list \<Rightarrow> string list \<Rightarrow> gen_error + region list" where
  "lay_out_directives inner_radius cv [] cs = Inr []"
| "lay_out_directives inner_radius cv (d # ds) cs =
     (case claim_colours (shapes_of inner_radius cv d) cs of
        Inl e \<Rightarrow> Inl e
      | Inr (rs, rest) \<Rightarrow>
          (case lay_out_directives inner_radius cv ds rest of
             Inl e \<Rightarrow> Inl e
           | Inr rs' \<Rightarrow> Inr (rs @ rs')))"

text \<open>Modelled from the spec: whether a directive of \<^verbatim>\<open>create_flag.py\<close> is a
  \<open>StripeSet\<close>, which divides the whole canvas.
\<close>

fun is_stripe_set :: "directive \<Rightarrow> bool" where
  "is_stripe_set (StripeSet ori ratios) = True"
| "is_stripe_set d = False"

text \<open>Modelled from the spec: the background region of a flag of \<^verbatim>\<open>create_flag.py\<close>.
  Section 8 counts the background as a region that claims a colour of its own, before
  the directives (a lone star demands two colours, star and background), and counts none
  where stripes divide the whole canvas (three stripes are filled by exactly three
  colours); \<^verbatim>\<open>generate_flags.sh\<close> likewise passes four colours for the circle, moon and
  star of Tunisia. The spec states no rule beyond these examples (its example of two
  layered crosses names only the colours of the two crosses), so the layout takes the
  rule as a parameter, and this is the rule of the examples above.
\<close>

definition background_unless_stripes :: "canvas \<Rightarrow> directive list \<Rightarrow> shape list" where
  "background_unless_stripes cv ds =
     (if list_ex is_stripe_set ds then [] else [Rectangle 0 0 (width cv) (height cv)])"

text \<open>Modelled from the spec: the layout engine of \<^verbatim>\<open>create_flag.py\<close>. The background
  regions claim their colours first, then the directives in the order given; later
  regions draw on top of earlier ones.
\<close>

definition layout ::
  "(canvas \<Rightarrow> directive list \<Rightarrow> shape list) \<Rightarrow> (nat \<Rightarrow> real \<Rightarrow> real) \<Rightarrow> canvas \<Rightarrow>
     directive list \<Rightarrow> string list \<Rightarrow> gen_error + region list" where
  "layout background inner_radius cv ds cs =
     (case claim_colours (background cv ds) cs of
        Inl e \<Rightarrow> Inl e
      | Inr (rs, rest) \<Rightarrow>
          (case lay_out_directives inner_radius cv ds rest of
             Inl e \<Rightarrow> Inl e
           | Inr rs' \<Rightarrow> Inr (rs @ rs')))"

text \<open>Modelled from the spec: the total number of regions a directive sequence of
  \<^verbatim>\<open>create_flag.py\<close> demands: the background regions and those of every directive.
\<close>

definition regions_demanded ::
  "(canvas \<Rightarrow> directive list \<Rightarrow> shape list) \<Rightarrow> (nat \<Rightarrow> real \<Rightarrow> real) \<Rightarrow> canvas \<Rightarrow>
     directive list \<Rightarrow> nat" where
  "regions_demanded background inner_radius cv ds =
     length (background cv ds) + sum_list (map (\<lambda>d. length (shapes_of inner_radius cv d)) ds)"

text \<open>Modelled from the spec: the canvas dimension along which a \<open>StripeSet\<close> of
  \<^verbatim>\<open>create_flag.py\<close> divides.\<close>

definition canvas_extent :: "orientation \<Rightarrow> canvas \<Rightarrow> real" where
  "canvas_extent ori cv = (case ori of Vertical \<Rightarrow> width cv | Horizontal \<Rightarrow> height cv)"

text \<open>Modelled from the spec: where a segment emitted by \<^verbatim>\<open>create_flag.py\<close> starts along
  the orientation.\<close>

fun segment_start :: "orientation \<Rightarrow> shape \<Rightarrow> real" where
  "segment_start Vertical (Rectangle x y w h) = x"
| "segment_start Horizontal (Rectangle x y w h) = y"
| "segment_start ori sh = 0"

text \<open>Modelled from the spec: the width (vertical stripes) or height (horizontal stripes) of
  a segment emitted by \<^verbatim>\<open>create_flag.py\<close>.\<close>

fun segment_extent :: "orientation \<Rightarrow> shape \<Rightarrow> real" where
  "segment_extent Vertical (Rectangle x y w h) = w"
| "segment_extent Horizontal (Rectangle x y w h) = h"
| "segment_extent ori sh = 0"

text \<open>Modelled from the spec: the distance of two points of a polygon of
  \<^verbatim>\<open>create_flag.py\<close>, in canvas units.\<close>

definition distance :: "real \<times> real \<Rightarrow> real \<times> real \<Rightarrow> real" where
  "distance p q = sqrt ((fst p - fst q)\<^sup>2 + (snd p - snd q)\<^sup>2)"

text \<open>Modelled from the spec: a shape of \<^verbatim>\<open>create_flag.py\<close> paired with the colour it
  claims.\<close>

definition make_region :: "shape \<times> string \<Rightarrow> region" where
  "make_region p = \<lparr>r_shape = fst p, r_fill = snd p\<rparr>"

text \<open>A star's inner radius taken as two fifths of the outer one, for the examples.\<close>

definition two_fifths :: "nat \<Rightarrow> real \<Rightarrow> real" where
  "two_fifths points r = 2 * r / 5"

section \<open>Auxiliary facts about the viewer\<close>

subsection \<open>Attributes and the click handler\<close>

lemma getAttribute_setAttribute:
  "getAttribute (setAttribute e n v) m = (if m = n then Str (ToString v) else getAttribute e m)"
  by (simp add: getAttribute_def setAttribute_def)

lemma is_flag_component_setAttribute [simp]:
  "is_flag_component (setAttribute e n v) = is_flag_component e"
  by (simp add: is_flag_component_def setAttribute_def)

lemma parentNode_setAttribute [simp]: "parentNode (setAttribute e n v) = parentNode e"
  by (simp add: setAttribute_def)

lemma setAttribute_twice [simp]:
  "setAttribute (setAttribute e n v) n w = setAttribute e n w"
  by (simp add: setAttribute_def)

lemma length_repaint [simp]: "length (repaint_if_same_id ident c n els) = length els"
  by (simp add: repaint_if_same_id_def)

lemma length_fold_repaint [simp]:
  "length (fold (repaint_if_same_id ident c) ns els) = length els"
  by (induction ns arbitrary: els) simp_all

lemma fold_repaint_nth:
  "j < length els \<Longrightarrow>
   fold (repaint_if_same_id ident c) ns els ! j =
     (if j \<in> set ns \<and> getAttribute (els ! j) ''id'' = ident
      then setAttribute (els ! j) ''fill'' c else els ! j)"
proof (induction ns arbitrary: els)
  case Nil
  then show ?case by simp
next
  case (Cons n ns)
  let ?els = "repaint_if_same_id ident c n els"
  have len: "j < length ?els" using Cons.prems by simp
  have idj: "getAttribute (?els ! j) ''id'' = getAttribute (els ! j) ''id''"
    using Cons.prems
    by (cases "n = j") (simp_all add: repaint_if_same_id_def getAttribute_setAttribute)
  show ?case
    using Cons.IH [OF len] idj Cons.prems
    by (cases "n = j") (auto simp: repaint_if_same_id_def)
qed

lemma set_querySelectorAll:
  "set (querySelectorAll els) = {i. i < length els \<and> is_flag_component (els ! i)}"
  by (auto simp: querySelectorAll_def)

lemma distinct_querySelectorAll: "distinct (querySelectorAll els)"
  by (simp add: querySelectorAll_def)

subsection \<open>Groups in order of first occurrence\<close>

lemma first_occurrences_snoc:
  "first_occurrences (xs @ [x]) =
     (if x \<in> set (first_occurrences xs) then first_occurrences xs
      else first_occurrences xs @ [x])"
  by (simp add: first_occurrences_def)

lemma set_first_occurrences [simp]: "set (first_occurrences xs) = set xs"
  by (induction xs rule: rev_induct) (auto simp: first_occurrences_snoc first_occurrences_def)

lemma distinct_first_occurrences: "distinct (first_occurrences xs)"
  by (induction xs rule: rev_induct) (auto simp: first_occurrences_snoc first_occurrences_def)

lemma length_first_occurrences: "length (first_occurrences xs) = card (set xs)"
  using distinct_card [OF distinct_first_occurrences, of xs] by simp

lemma index_of_append: "x \<in> set xs \<Longrightarrow> index_of x (xs @ ys) = index_of x xs"
  by (induction xs) (auto simp: index_of_def)

lemma index_of_fresh: "x \<notin> set xs \<Longrightarrow> index_of x (xs @ [x]) = length xs"
  by (induction xs) (auto simp: index_of_def)

lemma index_of_less: "x \<in> set xs \<Longrightarrow> index_of x xs < length xs"
  by (induction xs) (auto simp: index_of_def)

lemma nth_index_of: "x \<in> set xs \<Longrightarrow> xs ! index_of x xs = x"
  by (induction xs) (auto simp: index_of_def)

lemma index_of_inj:
  "x \<in> set xs \<Longrightarrow> y \<in> set xs \<Longrightarrow> index_of x xs = index_of y xs \<Longrightarrow> x = y"
  using nth_index_of by metis

subsection \<open>Popping the palette\<close>

lemma pop_take_fst:
  "fst (pop (take (length pal - m) pal)) =
     (if m < length pal then Str (rev pal ! m) else Undefined)"
proof (cases "m < length pal")
  case True
  then have ne: "take (length pal - m) pal \<noteq> []" by auto
  have "last (take (length pal - m) pal) = take (length pal - m) pal ! (length pal - m - 1)"
    using last_conv_nth [OF ne] True by simp
  also have "\<dots> = pal ! (length pal - m - 1)"
    using True by (intro nth_take) simp
  also have "\<dots> = rev pal ! m" using True by (simp add: rev_nth)
  finally show ?thesis using True ne by (simp add: pop_def)
next
  case False
  then show ?thesis by (simp add: pop_def)
qed

lemma pop_take_snd:
  "snd (pop (take (length pal - m) pal)) = take (length pal - Suc m) pal"
proof (cases "m < length pal")
  case True
  then show ?thesis by (simp add: pop_def butlast_take)
next
  case False
  then show ?thesis by (simp add: pop_def)
qed

lemma truthy_popped: "truthy (popped m) = (m < length initial_grays)"
proof (cases "m < length initial_grays")
  case True
  then have "m = 0 \<or> m = 1 \<or> m = 2 \<or> m = 3" by (auto simp: initial_grays_def)
  then show ?thesis by (auto simp: popped_def initial_grays_def)
next
  case False
  then show ?thesis by (simp add: popped_def)
qed

subsection \<open>One iteration of the grouping loop\<close>

text \<open>
  An iteration on a shape not yet visited, whose \<open>id\<close> is not inherited, does not throw
  and re-establishes the invariant. The three cases are: no \<open>id\<close>, an \<open>id\<close> seen for
  the first time, and an \<open>id\<close> seen before (whose stored gray may be \<^verbatim>\<open>undefined\<close>, in
  which case the code pops again from the empty palette).
\<close>

lemma seen_groups_snoc:
  "seen_groups doc (P @ [i]) =
     (if group_of doc i \<in> set (seen_groups doc P) then seen_groups doc P
      else seen_groups doc P @ [group_of doc i])"
  by (simp add: seen_groups_def first_occurrences_snoc)

lemma set_seen_groups: "set (seen_groups doc P) = group_of doc ` set P"
  by (simp add: seen_groups_def)

lemma Single_in_seen: "Single i \<in> set (seen_groups doc P) \<Longrightarrow> i \<in> set P"
  by (auto simp: set_seen_groups group_of_def split: if_splits)

lemma group_component_ok:
  "ToString (c_id c) \<notin> set Object_prototype_keys \<Longrightarrow> \<exists>m'. group_component c m = Inr m'"
  by (auto simp: group_component_def get_property_def Let_def split: option.splits)

lemma pop_grays_fst:
  "grays x = take (length initial_grays - n) initial_grays \<Longrightarrow> fst (pop (grays x)) = popped n"
  by (simp add: pop_take_fst popped_def)

lemma pop_grays_snd:
  "grays x = take (length initial_grays - n) initial_grays \<Longrightarrow>
   snd (pop (grays x)) = take (length initial_grays - Suc n) initial_grays"
  by (simp add: pop_take_snd)

lemma truthy_id_cases:
  "truthy (getAttribute e n) \<Longrightarrow> \<exists>k. getAttribute e n = Str k \<and> k \<noteq> []"
  by (cases "getAttribute e n") (auto simp: getAttribute_def split: option.splits)

lemma extract_step_inv:
  assumes inv: "extract_inv doc P x"
    and i: "i < length doc" "i \<notin> set P"
    and np: "ToString (getAttribute (doc ! i) ''id'') \<notin> set Object_prototype_keys"
  shows "\<exists>x'. extract_step i x = Inr x' \<and> extract_inv doc (P @ [i]) x'"
proof -
  let ?G = "seen_groups doc P"
  let ?ident = "getAttribute (doc ! i) ''id''"
  from inv have len: "length (x_svg x) = length doc"
    and gr: "grays x = take (length initial_grays - length ?G) initial_grays"
    and ug: "\<And>k. usedGreys x k =
            (if Identity k \<in> set ?G then Some (popped (index_of (Identity k) ?G)) else None)"
    and sv: "\<And>j. j < length doc \<Longrightarrow> x_svg x ! j =
            (if j \<in> set P
             then setAttribute (doc ! j) ''fill'' (popped (index_of (group_of doc j) ?G))
             else doc ! j)"
    by (simp_all add: extract_inv_def)
  have ei: "x_svg x ! i = doc ! i" using sv [OF i(1)] i(2) by simp
  obtain m where m: "group_component \<lparr>c_el = i, c_id = ?ident, c_color = getAttribute (doc ! i) ''fill''\<rparr>
                        (newFlagComponents x) = Inr m"
    using group_component_ok [of "\<lparr>c_el = i, c_id = ?ident, c_color = getAttribute (doc ! i) ''fill''\<rparr>"] np
    by auto
  define x1 where "x1 = assign_gray i ?ident (x\<lparr>newFlagComponents := m\<rparr>)"
  define x' where "x' = x1\<lparr>x_listeners := x_listeners x @
       [\<lparr>l_el = i, l_id = ?ident, l_color = getAttribute (doc ! i) ''fill''\<rparr>]\<rparr>"
  have step: "extract_step i x = Inr x'"
    by (simp add: extract_step_def ei m x'_def x1_def Let_def)
  have old: "\<And>g. g \<in> set ?G \<Longrightarrow> index_of g (seen_groups doc (P @ [i])) = index_of g ?G"
    by (simp add: seen_groups_snoc index_of_append)
  have oldj: "\<And>j. j \<in> set P \<Longrightarrow> group_of doc j \<in> set ?G"
    by (simp add: set_seen_groups)
  have "extract_inv doc (P @ [i]) x'"
  proof (cases "truthy ?ident")
    case False
    then have g: "group_of doc i = Single i" by (simp add: group_of_def)
    then have fresh: "group_of doc i \<notin> set ?G" using i(2) Single_in_seen by metis
    have G': "seen_groups doc (P @ [i]) = ?G @ [Single i]"
      using fresh g by (simp add: seen_groups_snoc)
    have x1: "x1 = x\<lparr>newFlagComponents := m,
                     grays := take (length initial_grays - Suc (length ?G)) initial_grays,
                     x_svg := (x_svg x)[i := setAttribute (doc ! i) ''fill'' (popped (length ?G))]\<rparr>"
      using False by (simp add: x1_def assign_gray_def pop_grays_fst [OF gr] pop_grays_snd [OF gr] ei)
    have new: "index_of (group_of doc i) (seen_groups doc (P @ [i])) = length ?G"
      using fresh g G' by (simp add: index_of_fresh)
    show ?thesis
      unfolding extract_inv_def
    proof (intro conjI allI impI)
      show "length (x_svg x') = length doc" by (simp add: x'_def x1 len)
      show "grays x' = take (length initial_grays - length (seen_groups doc (P @ [i]))) initial_grays"
        by (simp add: x'_def x1 G')
      show "usedGreys x' k =
            (if Identity k \<in> set (seen_groups doc (P @ [i]))
             then Some (popped (index_of (Identity k) (seen_groups doc (P @ [i])))) else None)" for k
        using old [of "Identity k"] by (simp add: x'_def x1 ug) (simp add: G')
      show "x_svg x' ! j =
            (if j \<in> set (P @ [i])
             then setAttribute (doc ! j) ''fill''
                    (popped (index_of (group_of doc j) (seen_groups doc (P @ [i]))))
             else doc ! j)" if "j < length doc" for j
      proof (cases "j = i")
        case True
        then show ?thesis using new len i by (simp add: x'_def x1)
      next
        case False
        then show ?thesis using that sv [OF that] old [OF oldj, of j] by (simp add: x'_def x1)
      qed
    qed
  next
    case True
    then obtain k where k: "?ident = Str k" "k \<noteq> []" using truthy_id_cases by blast
    then have g: "group_of doc i = Identity k" by (simp add: group_of_def)
    have kp: "k \<notin> set Object_prototype_keys" using np k by simp
    show ?thesis
    proof (cases "Identity k \<in> set ?G")
      case False
      have G': "seen_groups doc (P @ [i]) = ?G @ [Identity k]"
        using False g by (simp add: seen_groups_snoc)
      have new: "index_of (Identity k) (seen_groups doc (P @ [i])) = length ?G"
        using False G' by (simp add: index_of_fresh)
      have x1: "x1 = x\<lparr>newFlagComponents := m,
                     grays := take (length initial_grays - Suc (length ?G)) initial_grays,
                     usedGreys := (usedGreys x)(k \<mapsto> popped (length ?G)),
                     x_svg := (x_svg x)[i := setAttribute (doc ! i) ''fill'' (popped (length ?G))]\<rparr>"
        using False kp ug [of k]
        by (simp add: x1_def assign_gray_def k get_value_def get_property_def
            pop_grays_fst [OF gr] pop_grays_snd [OF gr] ei Let_def)
      show ?thesis
        unfolding extract_inv_def
      proof (intro conjI allI impI)
        show "length (x_svg x') = length doc" by (simp add: x'_def x1 len)
        show "grays x' = take (length initial_grays - length (seen_groups doc (P @ [i]))) initial_grays"
          by (simp add: x'_def x1 G')
        show "usedGreys x' k' =
            (if Identity k' \<in> set (seen_groups doc (P @ [i]))
             then Some (popped (index_of (Identity k') (seen_groups doc (P @ [i])))) else None)" for k'
        proof (cases "k' = k")
          case True
          then show ?thesis using new by (simp add: x'_def x1 G')
        next
          case False
          then show ?thesis
            using old [of "Identity k'"] by (simp add: x'_def x1 ug) (simp add: G')
        qed
        show "x_svg x' ! j =
            (if j \<in> set (P @ [i])
             then setAttribute (doc ! j) ''fill''
                    (popped (index_of (group_of doc j) (seen_groups doc (P @ [i]))))
             else doc ! j)" if "j < length doc" for j
        proof (cases "j = i")
          case True
          then show ?thesis using new len i g by (simp add: x'_def x1)
        next
          case False
          then show ?thesis using that sv [OF that] old [OF oldj, of j] by (simp add: x'_def x1)
        qed
      qed
    next
      case True
      have G': "seen_groups doc (P @ [i]) = ?G"
        using True g by (simp add: seen_groups_snoc)
      let ?n = "index_of (Identity k) ?G"
      have nlt: "?n < length ?G" using True by (rule index_of_less)
      have uk: "usedGreys x k = Some (popped ?n)" using True ug [of k] by simp
      have x1: "x1 = x\<lparr>newFlagComponents := m,
                     x_svg := (x_svg x)[i := setAttribute (doc ! i) ''fill'' (popped ?n)]\<rparr>"
      proof (cases "truthy (popped ?n)")
        case True
        then show ?thesis
          using uk by (simp add: x1_def assign_gray_def k get_value_def get_property_def ei Let_def)
      next
        case False
        then have ge: "length initial_grays \<le> ?n" by (simp add: truthy_popped)
        then have pu: "popped ?n = Undefined" by (simp add: popped_def)
        have ge': "length initial_grays \<le> length ?G" using ge nlt by simp
        have empty: "grays x = []" using gr ge' by simp
        have "(usedGreys x)(k \<mapsto> Undefined) = usedGreys x"
          using uk pu by (simp add: fun_upd_idem)
        then show ?thesis
          using uk pu empty
          by (simp add: x1_def assign_gray_def k get_value_def get_property_def ei Let_def pop_def)
      qed
      show ?thesis
        unfolding extract_inv_def G'
      proof (intro conjI allI impI)
        show "length (x_svg x') = length doc" by (simp add: x'_def x1 len)
        show "grays x' = take (length initial_grays - length ?G) initial_grays"
          by (simp add: x'_def x1 gr)
        show "usedGreys x' k' =
            (if Identity k' \<in> set ?G then Some (popped (index_of (Identity k') ?G)) else None)" for k'
          by (simp add: x'_def x1 ug)
        show "x_svg x' ! j =
            (if j \<in> set (P @ [i])
             then setAttribute (doc ! j) ''fill'' (popped (index_of (group_of doc j) ?G))
             else doc ! j)" if "j < length doc" for j
        proof (cases "j = i")
          case True
          then show ?thesis using len i g by (simp add: x'_def x1)
        next
          case False
          then show ?thesis using that sv [OF that] by (simp add: x'_def x1)
        qed
      qed
    qed
  qed
  with step show ?thesis by blast
qed

subsection \<open>What a load and a click leave unchanged\<close>

text \<open>
  Neither \<open>extractSvgData\<close> nor \<open>componentClick\<close> touches a class or an \<open>id\<close>, and each
  successful iteration registers one listener that captured the shape's \<open>id\<close>.
\<close>

lemma same_shapes_refl: "same_shapes a a"
  by (simp add: same_shapes_def)

lemma same_shapes_trans: "same_shapes a b \<Longrightarrow> same_shapes b c \<Longrightarrow> same_shapes a c"
  by (auto simp: same_shapes_def)

lemma same_shapes_update:
  "same_shapes a (a[i := setAttribute (a ! i) ''fill'' v])"
proof -
  have "is_flag_component (a[i := setAttribute (a ! i) ''fill'' v] ! j) = is_flag_component (a ! j) \<and>
        getAttribute (a[i := setAttribute (a ! i) ''fill'' v] ! j) ''id'' = getAttribute (a ! j) ''id'' \<and>
        parentNode (a[i := setAttribute (a ! i) ''fill'' v] ! j) = parentNode (a ! j)"
    if "j < length a" for j
    using that by (cases "j = i") (simp_all add: getAttribute_setAttribute)
  then show ?thesis by (simp add: same_shapes_def)
qed

lemma x_svg_assign_gray:
  "\<exists>v. x_svg (assign_gray i ident s) = (x_svg s)[i := setAttribute (x_svg s ! i) ''fill'' v]"
  by (auto simp: assign_gray_def Let_def)

lemma x_listeners_assign_gray [simp]: "x_listeners (assign_gray i ident s) = x_listeners s"
  by (simp add: assign_gray_def Let_def)

lemma extract_step_frame:
  assumes "extract_step i x = Inr x'"
  shows "same_shapes (x_svg x) (x_svg x')"
    and "x_listeners x' = x_listeners x @
           [\<lparr>l_el = i, l_id = getAttribute (x_svg x ! i) ''id'',
             l_color = getAttribute (x_svg x ! i) ''fill''\<rparr>]"
proof -
  from assms obtain m where
    x': "x' = (assign_gray i (getAttribute (x_svg x ! i) ''id'') (x\<lparr>newFlagComponents := m\<rparr>))
                \<lparr>x_listeners := x_listeners x @
                   [\<lparr>l_el = i, l_id = getAttribute (x_svg x ! i) ''id'',
                     l_color = getAttribute (x_svg x ! i) ''fill''\<rparr>]\<rparr>"
    by (auto simp: extract_step_def Let_def split: sum.splits)
  obtain v where "x_svg x' = (x_svg x)[i := setAttribute (x_svg x ! i) ''fill'' v]"
    using x_svg_assign_gray [of i "getAttribute (x_svg x ! i) ''id''" "x\<lparr>newFlagComponents := m\<rparr>"]
    by (auto simp: x')
  then show "same_shapes (x_svg x) (x_svg x')" by (simp add: same_shapes_update)
  show "x_listeners x' = x_listeners x @
           [\<lparr>l_el = i, l_id = getAttribute (x_svg x ! i) ''id'',
             l_color = getAttribute (x_svg x ! i) ''fill''\<rparr>]"
    by (simp add: x')
qed

lemma forEach_extract_frame:
  "forEach_extract ns x = (None, x') \<Longrightarrow> \<forall>i \<in> set ns. i < length (x_svg x) \<Longrightarrow>
   same_shapes (x_svg x) (x_svg x') \<and>
   (\<exists>new. x_listeners x' = x_listeners x @ new \<and> map l_el new = ns \<and>
          (\<forall>l \<in> set new. l_id l = getAttribute (x_svg x ! l_el l) ''id''))"
proof (induction ns arbitrary: x)
  case Nil
  then show ?case by (simp add: same_shapes_refl)
next
  case (Cons i ns)
  from Cons.prems(1) obtain x1 where
    st: "extract_step i x = Inr x1" and rest: "forEach_extract ns x1 = (None, x')"
    by (auto split: sum.splits)
  note fr = extract_step_frame [OF st]
  have len: "length (x_svg x1) = length (x_svg x)" using fr(1) by (simp add: same_shapes_def)
  have "\<forall>i \<in> set ns. i < length (x_svg x1)" using Cons.prems(2) len by simp
  from Cons.IH [OF rest this] obtain new where
    ss: "same_shapes (x_svg x1) (x_svg x')" and
    new: "x_listeners x' = x_listeners x1 @ new" "map l_el new = ns"
         "\<forall>l \<in> set new. l_id l = getAttribute (x_svg x1 ! l_el l) ''id''"
    by blast
  let ?l = "\<lparr>l_el = i, l_id = getAttribute (x_svg x ! i) ''id'',
             l_color = getAttribute (x_svg x ! i) ''fill''\<rparr>"
  have ids: "\<forall>l \<in> set new. l_id l = getAttribute (x_svg x ! l_el l) ''id''"
  proof
    fix l assume l: "l \<in> set new"
    then have "l_el l \<in> set ns" using new(2) by (metis image_eqI set_map)
    then have "l_el l < length (x_svg x)" using Cons.prems(2) by simp
    then show "l_id l = getAttribute (x_svg x ! l_el l) ''id''"
      using new(3) l fr(1) by (simp add: same_shapes_def)
  qed
  have "x_listeners x' = x_listeners x @ (?l # new)" using new(1) fr(2) by simp
  moreover have "map l_el (?l # new) = i # ns" using new(2) by simp
  moreover have "\<forall>l \<in> set (?l # new). l_id l = getAttribute (x_svg x ! l_el l) ''id''"
    using ids by simp
  ultimately have "\<exists>new. x_listeners x' = x_listeners x @ new \<and> map l_el new = i # ns \<and>
          (\<forall>l \<in> set new. l_id l = getAttribute (x_svg x ! l_el l) ''id'')"
    by (intro exI [of _ "?l # new"] conjI)
  then show ?case
    using same_shapes_trans [OF fr(1) ss] by simp
qed

lemma extractSvgData_wired:
  assumes "extractSvgData (Flag_mounted doc c0) = (None, s1)"
  shows "wired doc s1"
proof -
  obtain x where x: "forEach_extract (querySelectorAll doc) (extract_init (Flag_mounted doc c0)) = (None, x)"
    and s1: "s1 = (Flag_mounted doc c0)\<lparr>svg := x_svg x, listeners := x_listeners x,
                   flagComponents := newFlagComponents x, loading := False\<rparr>"
    using assms
    by (auto simp: extractSvgData_def Flag_mounted_def split: prod.splits option.splits)
  have "\<forall>i \<in> set (querySelectorAll doc). i < length (x_svg (extract_init (Flag_mounted doc c0)))"
    by (simp add: set_querySelectorAll extract_init_def Flag_mounted_def)
  from forEach_extract_frame [OF x this]
  show ?thesis
    by (auto simp: wired_def s1 extract_init_def Flag_mounted_def)
qed

subsection \<open>The click handler on a loaded document\<close>

lemma componentClick_truthy:
  assumes "truthy ident" "j < length (svg s)"
  shows "svg (componentClick n ident col s) ! j =
           (if is_flag_component (svg s ! j) \<and> getAttribute (svg s ! j) ''id'' = ident
            then setAttribute (svg s ! j) ''fill'' (selectedColorRef s) else svg s ! j)"
  using assms by (simp add: componentClick_def fold_repaint_nth set_querySelectorAll)

lemma componentClick_falsy:
  "\<not> truthy ident \<Longrightarrow>
   componentClick n ident col s =
     s\<lparr>svg := (svg s)[n := setAttribute (svg s ! n) ''fill'' (selectedColorRef s)]\<rparr>"
  by (simp add: componentClick_def)

lemma componentClick_frame:
  "length (svg (componentClick n ident col s)) = length (svg s)"
  "listeners (componentClick n ident col s) = listeners s"
  "selectedColorRef (componentClick n ident col s) = selectedColorRef s"
  by (simp_all add: componentClick_def)

lemma componentClick_same_shapes:
  "same_shapes (svg s) (svg (componentClick n ident col s))"
proof (cases "truthy ident")
  case True
  then show ?thesis
    by (auto simp: same_shapes_def componentClick_frame componentClick_truthy getAttribute_setAttribute)
next
  case False
  then show ?thesis by (simp add: componentClick_falsy same_shapes_update)
qed

lemma componentClick_idem:
  "componentClick n ident col' (componentClick n ident col s) = componentClick n ident col s"
proof (cases "truthy ident")
  case True
  let ?s = "componentClick n ident col s"
  have "svg (componentClick n ident col' ?s) = svg ?s"
  proof (rule nth_equalityI)
    show "length (svg (componentClick n ident col' ?s)) = length (svg ?s)"
      by (simp add: componentClick_frame)
    fix j assume "j < length (svg (componentClick n ident col' ?s))"
    then have j: "j < length (svg s)" by (simp add: componentClick_frame)
    then have j': "j < length (svg ?s)" by (simp add: componentClick_frame)
    show "svg (componentClick n ident col' ?s) ! j = svg ?s ! j"
      unfolding componentClick_truthy [OF True j'] componentClick_frame
      by (simp add: componentClick_truthy [OF True j] getAttribute_setAttribute)
  qed
  moreover have "componentClick n ident col' ?s = ?s\<lparr>svg := svg (componentClick n ident col' ?s)\<rparr>"
    using True by (simp add: componentClick_def)
  ultimately show ?thesis by simp
next
  case False
  then show ?thesis
    by (cases "n < length (svg s)") (simp_all add: componentClick_falsy not_less list_update_beyond)
qed

lemma fold_componentClick_same:
  "\<forall>l \<in> set ls. l_el l = n \<and> l_id l = ident \<Longrightarrow>
   fold (\<lambda>l. componentClick (l_el l) (l_id l) (l_color l)) ls (componentClick n ident col s) =
     componentClick n ident col s"
proof (induction ls)
  case Nil
  show ?case by simp
next
  case (Cons l ls)
  let ?f = "\<lambda>l. componentClick (l_el l) (l_id l) (l_color l)"
  have l: "l_el l = n" "l_id l = ident" using Cons.prems by simp_all
  have rest: "\<forall>l \<in> set ls. l_el l = n \<and> l_id l = ident" using Cons.prems by simp
  have "?f l (componentClick n ident col s) = componentClick n ident col s"
    unfolding l by (rule componentClick_idem)
  then have "fold ?f (l # ls) (componentClick n ident col s) =
             fold ?f ls (componentClick n ident col s)"
    by (simp only: fold_simps o_apply)
  then show ?case using Cons.IH [OF rest] by (simp only:)
qed

lemma target_listeners:
  assumes w: "wired doc s" and i: "i \<in> set (querySelectorAll doc)"
  shows "\<exists>col. fold (\<lambda>l. componentClick (l_el l) (l_id l) (l_color l)) (listeners_on s i) s =
               componentClick i (getAttribute (doc ! i) ''id'') col s"
proof -
  let ?ls = "listeners_on s i"
  have "i \<in> set (map l_el (listeners s))" using w i by (simp add: wired_def)
  then have "?ls \<noteq> []" by (auto simp: listeners_on_def filter_empty_conv)
  then obtain l ls where ls: "?ls = l # ls" by (cases ?ls) auto
  have all: "\<forall>l' \<in> set ?ls. l_el l' = i \<and> l_id l' = getAttribute (doc ! i) ''id''"
    using w by (auto simp: wired_def listeners_on_def)
  then have l: "l_el l = i" "l_id l = getAttribute (doc ! i) ''id''"
    and rest: "\<forall>l' \<in> set ls. l_el l' = i \<and> l_id l' = getAttribute (doc ! i) ''id''"
    unfolding ls by simp_all
  have "fold (\<lambda>l. componentClick (l_el l) (l_id l) (l_color l)) ?ls s =
        fold (\<lambda>l. componentClick (l_el l) (l_id l) (l_color l)) ls
          (componentClick i (getAttribute (doc ! i) ''id'') (l_color l) s)"
    by (simp add: ls l)
  also have "\<dots> = componentClick i (getAttribute (doc ! i) ''id'') (l_color l) s"
    using rest by (rule fold_componentClick_same)
  finally show ?thesis by blast
qed

text \<open>The listeners of the enclosing elements run after those of the target.\<close>

lemma click_split:
  "click i s =
     fold (\<lambda>l. componentClick (l_el l) (l_id l) (l_color l))
       (concat (map (listeners_on s) (ancestors (svg s) i)))
       (fold (\<lambda>l. componentClick (l_el l) (l_id l) (l_color l)) (listeners_on s i) s)"
  by (simp add: click_def propagation_path_def)

text \<open>A shape already painted with the selected colour stays so under any listener.\<close>

lemma componentClick_keeps_painted:
  assumes "j < length (svg s)"
    and "getAttribute (svg s ! j) ''fill'' = Str (ToString (selectedColorRef s))"
  shows "getAttribute (svg (componentClick n ident col s) ! j) ''fill'' =
           Str (ToString (selectedColorRef s))"
proof (cases "truthy ident")
  case True
  then show ?thesis
    using assms by (simp add: componentClick_truthy getAttribute_setAttribute)
next
  case False
  then show ?thesis
    using assms by (cases "j = n") (simp_all add: componentClick_falsy getAttribute_setAttribute)
qed

lemma fold_componentClick_keeps_painted:
  "j < length (svg s) \<Longrightarrow>
   getAttribute (svg s ! j) ''fill'' = Str (ToString (selectedColorRef s)) \<Longrightarrow>
   getAttribute (svg (fold (\<lambda>l. componentClick (l_el l) (l_id l) (l_color l)) ls s) ! j) ''fill'' =
     Str (ToString (selectedColorRef s))"
proof (induction ls arbitrary: s)
  case Nil
  then show ?case by simp
next
  case (Cons l ls)
  let ?s = "componentClick (l_el l) (l_id l) (l_color l) s"
  have "j < length (svg ?s)" using Cons.prems(1) by (simp add: componentClick_frame)
  moreover have "getAttribute (svg ?s ! j) ''fill'' = Str (ToString (selectedColorRef ?s))"
    using componentClick_keeps_painted [OF Cons.prems] by (simp add: componentClick_frame)
  ultimately show ?case
    using Cons.IH [of ?s] by (simp add: componentClick_frame)
qed

text \<open>Repainting does not change who encloses whom.\<close>

lemma ancestors_same_shapes:
  "same_shapes a b \<Longrightarrow> i < length a \<Longrightarrow> ancestors b i = ancestors a i"
proof (induction a i rule: ancestors.induct)
  case (1 els i)
  have p: "parentNode (b ! i) = parentNode (els ! i)"
    using "1.prems" by (simp add: same_shapes_def)
  show ?case
  proof (cases "parentNode (els ! i)")
    case None
    then show ?thesis using p by (simp add: ancestors.simps [of b i] ancestors.simps [of els i])
  next
    case (Some q)
    show ?thesis
    proof (cases "q < i")
      case True
      then have "ancestors b q = ancestors els q"
        using "1.IH" [OF Some True "1.prems"(1)] "1.prems"(2) by simp
      then show ?thesis
        using p Some True by (simp add: ancestors.simps [of b i] ancestors.simps [of els i])
    next
      case False
      then show ?thesis
        using p Some by (simp add: ancestors.simps [of b i] ancestors.simps [of els i])
    qed
  qed
qed

text \<open>Only shapes carry listeners.\<close>

lemma listeners_on_other:
  "wired doc s \<Longrightarrow> n \<notin> set (querySelectorAll doc) \<Longrightarrow> listeners_on s n = []"
proof -
  assume w: "wired doc s" and n: "n \<notin> set (querySelectorAll doc)"
  have "set (map l_el (listeners s)) = set (querySelectorAll doc)" using w by (simp add: wired_def)
  then have "\<forall>l \<in> set (listeners s). l_el l \<noteq> n" using n by auto
  then show ?thesis by (simp add: listeners_on_def filter_empty_conv)
qed

lemma click_unenclosed:
  assumes w: "wired doc s" and i: "i \<in> set (querySelectorAll doc)"
    and free: "\<forall>a \<in> set (ancestors doc i). a \<notin> set (querySelectorAll doc)"
  shows "\<exists>col. click i s = componentClick i (getAttribute (doc ! i) ''id'') col s"
proof -
  have ss: "same_shapes doc (svg s)" using w by (simp add: wired_def)
  have "i < length doc" using i by (simp add: set_querySelectorAll)
  then have "ancestors (svg s) i = ancestors doc i" by (rule ancestors_same_shapes [OF ss])
  then have "\<forall>a \<in> set (ancestors (svg s) i). listeners_on s a = []"
    using free listeners_on_other [OF w] by simp
  then have e: "concat (map (listeners_on s) (ancestors (svg s) i)) = []" by simp
  show ?thesis
    unfolding click_split e fold_simps id_apply by (rule target_listeners [OF w i])
qed

lemma click_frame:
  "listeners (click i s) = listeners s \<and> selectedColorRef (click i s) = selectedColorRef s \<and>
   same_shapes (svg s) (svg (click i s))"
proof -
  have "listeners (fold (\<lambda>l. componentClick (l_el l) (l_id l) (l_color l)) ls s) = listeners s \<and>
        selectedColorRef (fold (\<lambda>l. componentClick (l_el l) (l_id l) (l_color l)) ls s) = selectedColorRef s \<and>
        same_shapes (svg s) (svg (fold (\<lambda>l. componentClick (l_el l) (l_id l) (l_color l)) ls s))"
    for ls :: "listener list"
  proof (induction ls arbitrary: s)
    case Nil
    then show ?case by (simp add: same_shapes_refl)
  next
    case (Cons l ls)
    let ?s = "componentClick (l_el l) (l_id l) (l_color l) s"
    note ih = Cons.IH [of ?s]
    have "same_shapes (svg s) (svg (fold (\<lambda>l. componentClick (l_el l) (l_id l) (l_color l)) ls ?s))"
      using same_shapes_trans [OF componentClick_same_shapes [of s "l_el l" "l_id l" "l_color l"]] ih
      by blast
    then show ?case
      using ih by (simp add: componentClick_frame)
  qed
  then show ?thesis by (simp add: click_def)
qed

lemma wired_apply_event: "wired doc s \<Longrightarrow> wired doc (apply_event ev s)"
proof (cases ev)
  case (ColourSelected c)
  assume "wired doc s"
  then show ?thesis using ColourSelected by (simp add: wired_def selectedColor_effect_def)
next
  case (Clicked i)
  assume "wired doc s"
  then show ?thesis
    using Clicked click_frame [of i s] same_shapes_trans [of doc "svg s" "svg (click i s)"]
    by (simp add: wired_def)
qed

lemma wired_fold: "wired doc s \<Longrightarrow> wired doc (fold apply_event evs s)"
  by (induction evs arbitrary: s) (simp_all add: wired_apply_event)

subsection \<open>The whole loop\<close>

lemma shape_groups_seen: "shape_groups doc = seen_groups doc (querySelectorAll doc)"
  by (simp add: shape_groups_def)

lemma forEach_extract_snoc:
  "forEach_extract (P @ [i]) x =
     (case forEach_extract P x of
        (Some e, x') \<Rightarrow> (Some e, x')
      | (None, x') \<Rightarrow> (case extract_step i x' of Inl e \<Rightarrow> (Some e, x') | Inr x'' \<Rightarrow> (None, x'')))"
  by (induction P arbitrary: x) (auto split: sum.splits)

lemma forEach_extract_inv:
  assumes "extract_inv doc [] x0"
  shows "distinct P \<Longrightarrow>
         \<forall>i \<in> set P. i < length doc \<and>
            ToString (getAttribute (doc ! i) ''id'') \<notin> set Object_prototype_keys \<Longrightarrow>
         \<exists>x. forEach_extract P x0 = (None, x) \<and> extract_inv doc P x"
proof (induction P rule: rev_induct)
  case Nil
  then show ?case using assms by simp
next
  case (snoc i P)
  then obtain x where x: "forEach_extract P x0 = (None, x)" "extract_inv doc P x" by auto
  have "i < length doc" "i \<notin> set P"
    "ToString (getAttribute (doc ! i) ''id'') \<notin> set Object_prototype_keys"
    using snoc.prems by simp_all
  from extract_step_inv [OF x(2) this] obtain x' where
    "extract_step i x = Inr x'" "extract_inv doc (P @ [i]) x'" by blast
  then show ?case using x(1) by (simp add: forEach_extract_snoc)
qed

lemma extract_inv_init: "extract_inv doc [] (extract_init (Flag_mounted doc c))"
  by (simp add: extract_inv_def extract_init_def Flag_mounted_def seen_groups_def
      first_occurrences_def)

lemma forEach_extract_fills:
  assumes "no_inherited_ids doc"
  shows "\<exists>x. forEach_extract (querySelectorAll doc) (extract_init (Flag_mounted doc c)) = (None, x) \<and>
             extract_inv doc (querySelectorAll doc) x"
proof -
  have "\<forall>i \<in> set (querySelectorAll doc). i < length doc \<and>
            ToString (getAttribute (doc ! i) ''id'') \<notin> set Object_prototype_keys"
    using assms by (simp add: no_inherited_ids_def set_querySelectorAll)
  from forEach_extract_inv [OF extract_inv_init distinct_querySelectorAll this]
  show ?thesis .
qed

lemma extractSvgData_fills:
  assumes "no_inherited_ids doc"
  shows "fst (extractSvgData (Flag_mounted doc c)) = None"
    and "i \<in> set (querySelectorAll doc) \<Longrightarrow>
         svg (snd (extractSvgData (Flag_mounted doc c))) ! i =
           setAttribute (doc ! i) ''fill'' (popped (group_index doc i))"
proof -
  obtain x where x: "forEach_extract (querySelectorAll doc) (extract_init (Flag_mounted doc c)) = (None, x)"
    and inv: "extract_inv doc (querySelectorAll doc) x"
    using forEach_extract_fills [OF assms] by blast
  have run: "forEach_extract (querySelectorAll (svg (Flag_mounted doc c)))
               (extract_init (Flag_mounted doc c)) = (None, x)"
    using x by (simp add: Flag_mounted_def)
  show "fst (extractSvgData (Flag_mounted doc c)) = None"
    by (simp add: extractSvgData_def run)
  assume i: "i \<in> set (querySelectorAll doc)"
  then have "i < length doc" by (simp add: set_querySelectorAll)
  then have "x_svg x ! i = setAttribute (doc ! i) ''fill'' (popped (group_index doc i))"
    using inv i by (simp add: extract_inv_def group_index_def shape_groups_seen)
  then show "svg (snd (extractSvgData (Flag_mounted doc c))) ! i =
           setAttribute (doc ! i) ''fill'' (popped (group_index doc i))"
    by (simp add: extractSvgData_def run)
qed

lemma group_of_in_shape_groups:
  "i \<in> set (querySelectorAll doc) \<Longrightarrow> group_of doc i \<in> set (shape_groups doc)"
  by (simp add: shape_groups_def set_seen_groups)

lemma group_index_less:
  "i \<in> set (querySelectorAll doc) \<Longrightarrow> group_index doc i < length (shape_groups doc)"
  unfolding group_index_def by (rule index_of_less) (rule group_of_in_shape_groups)

lemma distinct_rev_initial_grays: "distinct (rev initial_grays)"
  by (simp add: initial_grays_def)

subsection \<open>The application before a swatch is clicked\<close>

lemma selectedColorRef_extractSvgData [simp]:
  "selectedColorRef (snd (extractSvgData s)) = selectedColorRef s"
  by (simp add: extractSvgData_def split: prod.splits option.splits)

lemma no_colour_picked_step:
  "no_colour_picked a \<Longrightarrow> \<not> is_swatch_click ev \<Longrightarrow> no_colour_picked (app_step ev a)"
  using click_frame [of _ "view a"]
  by (cases ev) (simp_all add: no_colour_picked_def)

lemma no_colour_picked_fold:
  "no_colour_picked a \<Longrightarrow> \<forall>ev \<in> set evs. \<not> is_swatch_click ev \<Longrightarrow>
   no_colour_picked (fold app_step evs a)"
  by (induction evs arbitrary: a) (simp_all add: no_colour_picked_step)

lemma no_colour_picked_mounted: "no_colour_picked App_mounted"
  by (simp add: no_colour_picked_def App_mounted_def ColourPicker_effect_def selectColor_def
      setColor_def App_first_render_def selectedColor_effect_def)

subsection \<open>When the grouping throws\<close>

text \<open>
  The components map never gets an own property named like a member of
  \<^verbatim>\<open>Object.prototype\<close>, so the first shape with such an \<open>id\<close> always hits the inherited
  member: \<open>extractSvgData\<close> returns normally exactly for the documents without such ids.
\<close>

lemma falsy_key_not_inherited:
  "\<not> truthy v \<Longrightarrow> ToString v \<notin> set Object_prototype_keys"
  by (cases v) (simp_all add: Object_prototype_keys_def)

lemma group_component_keys:
  assumes "group_component c m = Inr m'"
    and "dom m \<inter> set Object_prototype_keys = {}"
  shows "ToString (c_id c) \<notin> set Object_prototype_keys"
    and "dom m' \<inter> set Object_prototype_keys = {}"
proof -
  show key: "ToString (c_id c) \<notin> set Object_prototype_keys"
  proof (cases "truthy (c_id c)")
    case True
    show ?thesis
    proof
      assume k: "ToString (c_id c) \<in> set Object_prototype_keys"
      then have "m (ToString (c_id c)) = None" using assms(2) by auto
      then have "group_component c m = Inl TypeError"
        using k True by (simp add: group_component_def get_property_def)
      then show False using assms(1) by simp
    qed
  next
    case False
    then show ?thesis by (rule falsy_key_not_inherited)
  qed
  have "\<exists>cs. m' = m(ToString (c_id c) \<mapsto> cs)"
    using assms(1)
    by (auto simp: group_component_def Let_def split: property.splits if_splits)
  then have "dom m' = insert (ToString (c_id c)) (dom m)" by auto
  then show "dom m' \<inter> set Object_prototype_keys = {}"
    using key assms(2) by simp
qed

lemma newFlagComponents_assign_gray [simp]:
  "newFlagComponents (assign_gray i ident s) = newFlagComponents s"
  by (simp add: assign_gray_def Let_def)

lemma forEach_extract_None_ids:
  "forEach_extract ns x = (None, x') \<Longrightarrow>
   dom (newFlagComponents x) \<inter> set Object_prototype_keys = {} \<Longrightarrow>
   \<forall>i \<in> set ns. i < length (x_svg x) \<Longrightarrow>
   \<forall>i \<in> set ns. ToString (getAttribute (x_svg x ! i) ''id'') \<notin> set Object_prototype_keys"
proof (induction ns arbitrary: x)
  case Nil
  then show ?case by simp
next
  case (Cons i ns)
  from Cons.prems(1) obtain x1 where
    st: "extract_step i x = Inr x1" and rest: "forEach_extract ns x1 = (None, x')"
    by (auto split: sum.splits)
  from st obtain m where
    m: "group_component \<lparr>c_el = i, c_id = getAttribute (x_svg x ! i) ''id'',
                         c_color = getAttribute (x_svg x ! i) ''fill''\<rparr> (newFlagComponents x) = Inr m"
    and x1: "newFlagComponents x1 = m"
    by (auto simp: extract_step_def Let_def split: sum.splits)
  note k = group_component_keys [OF m Cons.prems(2)]
  have ss: "same_shapes (x_svg x) (x_svg x1)" using extract_step_frame(1) [OF st] .
  then have len: "\<forall>i \<in> set ns. i < length (x_svg x1)"
    using Cons.prems(3) by (simp add: same_shapes_def)
  have "\<forall>j \<in> set ns. ToString (getAttribute (x_svg x1 ! j) ''id'') \<notin> set Object_prototype_keys"
    using Cons.IH [OF rest _ len] k(2) x1 by simp
  then have "\<forall>j \<in> set ns. ToString (getAttribute (x_svg x ! j) ''id'') \<notin> set Object_prototype_keys"
    using ss Cons.prems(3) by (simp add: same_shapes_def)
  then show ?case using k(1) by simp
qed

lemma extractSvgData_returns_iff:
  "(fst (extractSvgData (Flag_mounted doc c)) = None) = no_inherited_ids doc"
proof
  assume "no_inherited_ids doc"
  then show "fst (extractSvgData (Flag_mounted doc c)) = None"
    by (rule extractSvgData_fills(1))
next
  assume ok: "fst (extractSvgData (Flag_mounted doc c)) = None"
  then obtain x where
    x: "forEach_extract (querySelectorAll doc) (extract_init (Flag_mounted doc c)) = (None, x)"
    by (auto simp: extractSvgData_def Flag_mounted_def split: prod.splits option.splits)
  have "\<forall>i \<in> set (querySelectorAll doc).
          ToString (getAttribute (x_svg (extract_init (Flag_mounted doc c)) ! i) ''id'')
            \<notin> set Object_prototype_keys"
    by (rule forEach_extract_None_ids [OF x])
       (simp_all add: extract_init_def Flag_mounted_def set_querySelectorAll)
  then show "no_inherited_ids doc"
    by (simp add: no_inherited_ids_def extract_init_def Flag_mounted_def)
qed

subsection \<open>The example documents\<close>

lemma loaded_crescent:
  "fst (extractSvgData (Flag_mounted crescent_flag (Str ''#FFFFFF''))) = None"
  by code_simp

lemma crescent_ok: "no_inherited_ids crescent_flag" by code_simp

section \<open>Auxiliary facts about the generator model\<close>

lemma claim_colours_short:
  "length cs < length shs \<Longrightarrow> claim_colours shs cs = Inl InsufficientColours"
  by (induction shs cs rule: claim_colours.induct) auto

lemma claim_colours_enough:
  "length shs \<le> length cs \<Longrightarrow>
   claim_colours shs cs = Inr (map make_region (zip shs cs), drop (length shs) cs)"
  by (induction shs cs rule: claim_colours.induct) (auto simp: make_region_def)

lemma zip_append_drop:
  "zip (xs @ ys) cs = zip xs cs @ zip ys (drop (length xs) cs)"
proof (induction xs arbitrary: cs)
  case Nil
  then show ?case by simp
next
  case (Cons x xs)
  then show ?case by (cases cs) simp_all
qed

lemma lay_out_directives_eq:
  "lay_out_directives inner_radius cv ds cs =
     (if length cs < sum_list (map (\<lambda>d. length (shapes_of inner_radius cv d)) ds)
      then Inl InsufficientColours
      else Inr (map make_region (zip (concat (map (shapes_of inner_radius cv) ds)) cs)))"
proof (induction ds arbitrary: cs)
  case Nil
  then show ?case by simp
next
  case (Cons d ds)
  let ?n = "length (shapes_of inner_radius cv d)"
  show ?case
  proof (cases "length cs < ?n")
    case True
    then show ?thesis by (simp add: claim_colours_short)
  next
    case False
    have "(length (drop ?n cs) < sum_list (map (\<lambda>d. length (shapes_of inner_radius cv d)) ds)) =
          (length cs < sum_list (map (\<lambda>d. length (shapes_of inner_radius cv d)) (d # ds)))"
      using False by auto
    then show ?thesis
      using False Cons.IH [of "drop ?n cs"]
      by (simp add: claim_colours_enough zip_append_drop)
  qed
qed

lemma length_segments [simp]: "length (segments e t s rs) = length rs"
  by (induction rs arbitrary: s) simp_all

lemma segments_nth:
  "k < length rs \<Longrightarrow>
   segments e t s rs ! k = (s + (\<Sum>r\<leftarrow>take k rs. e * r / t), e * (rs ! k) / t)"
proof (induction rs arbitrary: s k)
  case Nil
  then show ?case by simp
next
  case (Cons r rs)
  then show ?case by (cases k) (simp_all add: add.assoc)
qed

lemma sum_list_scaled: "(\<Sum>r\<leftarrow>rs. e * r / t) = e * sum_list rs / (t::real)"
  by (induction rs) (simp_all add: add_divide_distrib distrib_left)

lemma sum_list_pos: "rs \<noteq> [] \<Longrightarrow> \<forall>r \<in> set rs. 0 < r \<Longrightarrow> 0 < sum_list (rs::real list)"
  by (induction rs) (auto intro: add_pos_nonneg sum_list_nonneg less_imp_le)

lemma stripe_shapes_nth:
  assumes "k < length ratios"
  shows "segment_start ori (shapes_of inner_radius cv (StripeSet ori ratios) ! k) =
           (\<Sum>r\<leftarrow>take k ratios. canvas_extent ori cv * r / sum_list ratios)"
    and "segment_extent ori (shapes_of inner_radius cv (StripeSet ori ratios) ! k) =
           canvas_extent ori cv * (ratios ! k) / sum_list ratios"
  using assms by (cases ori; simp add: stripe_segments_def segments_nth canvas_extent_def)+

lemma length_star_vertices [simp]: "length (star_vertices ri points cx cy r rot) = 2 * points"
  by (simp add: star_vertices_def)

lemma star_vertices_nth:
  "k < 2 * points \<Longrightarrow>
   star_vertices ri points cx cy r rot ! k = star_vertex ri cx cy r rot points k"
  by (simp add: star_vertices_def)

lemma dist_polar:
  "distance (cx + rho * cos theta, cy + rho * sin theta) (cx, cy) = \<bar>rho\<bar>"
proof -
  have "(rho * cos theta)\<^sup>2 + (rho * sin theta)\<^sup>2 = rho\<^sup>2 * ((cos theta)\<^sup>2 + (sin theta)\<^sup>2)"
    by (simp only: power_mult_distrib distrib_left)
  also have "\<dots> = rho\<^sup>2" by simp
  finally have "sqrt ((rho * cos theta)\<^sup>2 + (rho * sin theta)\<^sup>2) = \<bar>rho\<bar>"
    by simp
  then show ?thesis by (simp add: distance_def)
qed

section \<open>The claims about the viewer\<close>

text \<open>
  Claim C1. After a document has been loaded (\<open>extractSvgData\<close> returned), and after
  any further colour selections and clicks \<open>evs\<close>, a click on a shape \<open>i\<close> whose
  \<open>id\<close> is the non-empty string \<open>k\<close> sets the \<open>fill\<close> of every shape \<open>j\<close> with
  that \<open>id\<close> to the colour \<open>c\<close> held by the ref at the click, whatever colour \<open>c0\<close>
  was selected at load time. \<^verbatim>\<open>setAttribute\<close> stores the string conversion of \<open>c\<close>,
  which is \<open>c\<close> itself for a colour string. The listeners of enclosing shapes, which
  the click reaches afterwards, paint with the same colour and so do not undo this.
\<close>
theorem click_repaints_identity_group:
  assumes "extractSvgData (Flag_mounted doc c0) = (None, s1)"
    and "i \<in> set (querySelectorAll doc)"
    and "getAttribute (doc ! i) ''id'' = Str k" and "k \<noteq> []"
    and "j \<in> set (querySelectorAll doc)"
    and "getAttribute (doc ! j) ''id'' = Str k"
  shows "getAttribute (svg (click i (selectedColor_effect c (fold apply_event evs s1))) ! j) ''fill'' =
           Str (ToString c)"
proof -
  let ?s = "selectedColor_effect c (fold apply_event evs s1)"
  have w: "wired doc ?s"
    using wired_apply_event [of doc "fold apply_event evs s1" "ColourSelected c"]
      wired_fold [OF extractSvgData_wired [OF assms(1)], of evs]
    by simp
  then have ss: "same_shapes doc (svg ?s)" by (simp add: wired_def)
  have j: "j < length doc" "is_flag_component (doc ! j)"
    using assms(5) by (simp_all add: set_querySelectorAll)
  then have j': "j < length (svg ?s)" "is_flag_component (svg ?s ! j)"
    "getAttribute (svg ?s ! j) ''id'' = Str k"
    using ss assms(6) by (simp_all add: same_shapes_def)
  obtain col where t:
    "fold (\<lambda>l. componentClick (l_el l) (l_id l) (l_color l)) (listeners_on ?s i) ?s =
       componentClick i (Str k) col ?s"
    using target_listeners [OF w assms(2)] assms(3) by auto
  let ?t = "componentClick i (Str k) col ?s"
  have "svg ?t ! j = setAttribute (svg ?s ! j) ''fill'' (selectedColorRef ?s)"
    using componentClick_truthy [of "Str k" j ?s i col] assms(4) j' by simp
  then have painted: "getAttribute (svg ?t ! j) ''fill'' = Str (ToString (selectedColorRef ?t))"
    by (simp add: getAttribute_setAttribute componentClick_frame)
  have len: "j < length (svg ?t)" using j'(1) by (simp add: componentClick_frame)
  have "getAttribute (svg (click i ?s) ! j) ''fill'' = Str (ToString (selectedColorRef ?t))"
    unfolding click_split t by (rule fold_componentClick_keeps_painted [OF len painted])
  then show ?thesis
    by (simp add: componentClick_frame selectedColor_effect_def)
qed

text \<open>
  The crescent flag, loaded while white was selected: after selecting red and clicking
  the field, yellow is selected and the first path of the moon is clicked; the second
  path of the moon turns yellow.
\<close>
theorem click_repaints_identity_group_witness:
  "extractSvgData (Flag_mounted crescent_flag (Str ''#FFFFFF'')) =
     (None, snd (extractSvgData (Flag_mounted crescent_flag (Str ''#FFFFFF'')))) \<and>
   1 \<in> set (querySelectorAll crescent_flag) \<and>
   getAttribute (crescent_flag ! 1) ''id'' = Str ''moon'' \<and> ''moon'' \<noteq> [] \<and>
   2 \<in> set (querySelectorAll crescent_flag) \<and>
   getAttribute (crescent_flag ! 2) ''id'' = Str ''moon'' \<and>
   getAttribute
     (svg (click 1 (selectedColor_effect (Str ''#FFCD00'')
             (fold apply_event [ColourSelected (Str ''#C8102E''), Clicked 0]
                (snd (extractSvgData (Flag_mounted crescent_flag (Str ''#FFFFFF''))))))) ! 2)
     ''fill'' = Str ''#FFCD00''"
proof -
  have h1: "extractSvgData (Flag_mounted crescent_flag (Str ''#FFFFFF'')) =
     (None, snd (extractSvgData (Flag_mounted crescent_flag (Str ''#FFFFFF''))))"
    using loaded_crescent by (simp add: prod_eq_iff)
  have h2: "1 \<in> set (querySelectorAll crescent_flag)" by code_simp
  have h3: "getAttribute (crescent_flag ! 1) ''id'' = Str ''moon''" by code_simp
  have h4: "''moon'' \<noteq> []" by simp
  have h5: "2 \<in> set (querySelectorAll crescent_flag)" by code_simp
  have h6: "getAttribute (crescent_flag ! 2) ''id'' = Str ''moon''" by code_simp
  show ?thesis
    using click_repaints_identity_group [OF h1 h2 h3 h4 h5 h6, of "Str ''#FFCD00''"
        "[ColourSelected (Str ''#C8102E''), Clicked 0]"] h1 h2 h3 h5 h6
    by simp
qed

text \<open>
  Claim C2. On a document of two shapes without \<open>id\<close>, \<open>extractSvgData\<close> writes both
  under the one key \<^verbatim>\<open>"null"\<close> of the components map: the second assignment replaces
  the first, the map ends with a single entry that holds only the second shape, and the
  first shape is in no entry at all.
\<close>
theorem identity_less_shapes_share_one_entry:
  "querySelectorAll two_stripes = [0, 1] \<and>
   getAttribute (two_stripes ! 0) ''id'' = Null \<and>
   getAttribute (two_stripes ! 1) ''id'' = Null \<and>
   fst (extractSvgData (Flag_mounted two_stripes Null)) = None \<and>
   flagComponents (snd (extractSvgData (Flag_mounted two_stripes Null))) ''null'' =
     Some [\<lparr>c_el = 1, c_id = Null, c_color = Str ''#FFD700''\<rparr>] \<and>
   dom (flagComponents (snd (extractSvgData (Flag_mounted two_stripes Null)))) = {''null''}"
proof -
  have "dom (flagComponents (snd (extractSvgData (Flag_mounted two_stripes Null)))) = {''null''}"
    by (simp add: extractSvgData_def Flag_mounted_def two_stripes_def flag_shape_def
        querySelectorAll_def is_flag_component_def extract_init_def extract_step_def
        group_component_def get_property_def getAttribute_def Object_prototype_keys_def
        upt_rec assign_gray_def Let_def)
  moreover have "querySelectorAll two_stripes = [0, 1]" by code_simp
  moreover have "getAttribute (two_stripes ! 0) ''id'' = Null"
    "getAttribute (two_stripes ! 1) ''id'' = Null" by code_simp+
  moreover have "fst (extractSvgData (Flag_mounted two_stripes Null)) = None" by code_simp
  moreover have "flagComponents (snd (extractSvgData (Flag_mounted two_stripes Null))) ''null'' =
     Some [\<lparr>c_el = 1, c_id = Null, c_color = Str ''#FFD700''\<rparr>]" by code_simp
  ultimately show ?thesis by simp
qed

text \<open>
  Claim C3. On a document of one shape whose \<open>id\<close> is \<^verbatim>\<open>constructor\<close>, which has a
  single group, \<open>extractSvgData\<close> assigns no placeholder colour: the components map is
  a plain object, the read \<^verbatim>\<open>newFlagComponents[id]\<close> finds the member inherited from
  \<^verbatim>\<open>Object.prototype\<close>, the spread of it throws, and the shape keeps its own
  \<open>fill\<close>, which is no palette colour.
\<close>
theorem inherited_id_gets_no_placeholder:
  "length (shape_groups constructor_flag) \<le> 4 \<and>
   0 \<in> set (querySelectorAll constructor_flag) \<and>
   fst (extractSvgData (Flag_mounted constructor_flag Null)) = Some TypeError \<and>
   getAttribute (svg (snd (extractSvgData (Flag_mounted constructor_flag Null))) ! 0) ''fill'' =
     Str ''#C8102E'' \<and>
   ''#C8102E'' \<notin> set initial_grays"
  by code_simp

text \<open>
  Apart from ids that name an inherited member, the grouping does what it is meant to.
  With at most four groups it returns, every shape's \<open>fill\<close> becomes the palette entry
  popped for its group (the groups numbered in order of first occurrence, the palette
  read from its end), and two shapes receive the same placeholder exactly when they
  belong to the same group, that is, when they carry the same non-empty \<open>id\<close> or are
  the same shape.
\<close>
lemma placeholder_colour_per_group:
  assumes "no_inherited_ids doc" and "length (shape_groups doc) \<le> 4"
  shows "fst (extractSvgData (Flag_mounted doc c)) = None \<and>
         (\<forall>i \<in> set (querySelectorAll doc).
            group_index doc i < length initial_grays \<and>
            getAttribute (svg (snd (extractSvgData (Flag_mounted doc c))) ! i) ''fill'' =
              Str (rev initial_grays ! group_index doc i)) \<and>
         (\<forall>i \<in> set (querySelectorAll doc). \<forall>j \<in> set (querySelectorAll doc).
            (getAttribute (svg (snd (extractSvgData (Flag_mounted doc c))) ! i) ''fill'' =
             getAttribute (svg (snd (extractSvgData (Flag_mounted doc c))) ! j) ''fill'') =
            (group_of doc i = group_of doc j))"
proof -
  let ?s = "snd (extractSvgData (Flag_mounted doc c))"
  have bound: "group_index doc i < length initial_grays"
    if "i \<in> set (querySelectorAll doc)" for i
    using group_index_less [OF that] assms(2) by (simp add: initial_grays_def)
  have fill: "getAttribute (svg ?s ! i) ''fill'' = Str (rev initial_grays ! group_index doc i)"
    if "i \<in> set (querySelectorAll doc)" for i
    using extractSvgData_fills(2) [OF assms(1) that, of c] bound [OF that]
    by (simp add: getAttribute_setAttribute popped_def)
  have same: "(getAttribute (svg ?s ! i) ''fill'' = getAttribute (svg ?s ! j) ''fill'') =
              (group_of doc i = group_of doc j)"
    if i: "i \<in> set (querySelectorAll doc)" and j: "j \<in> set (querySelectorAll doc)" for i j
  proof -
    have "(rev initial_grays ! group_index doc i = rev initial_grays ! group_index doc j) =
          (group_index doc i = group_index doc j)"
      using bound [OF i] bound [OF j] distinct_rev_initial_grays
      by (simp add: nth_eq_iff_index_eq)
    moreover have "(group_index doc i = group_index doc j) = (group_of doc i = group_of doc j)"
      using index_of_inj [OF group_of_in_shape_groups [OF i] group_of_in_shape_groups [OF j]]
      by (auto simp: group_index_def)
    ultimately show ?thesis by (simp add: fill [OF i] fill [OF j])
  qed
  show ?thesis
    using extractSvgData_fills(1) [OF assms(1), of c] bound fill same by blast
qed

text \<open>
  The crescent flag has three groups: both paths of the moon receive the second gray
  popped, the star the third.
\<close>
lemma placeholder_colour_per_group_example:
  "length (shape_groups crescent_flag) \<le> 4 \<and>
   fst (extractSvgData (Flag_mounted crescent_flag Null)) = None \<and>
   getAttribute (svg (snd (extractSvgData (Flag_mounted crescent_flag Null))) ! 1) ''fill'' =
     Str ''#9D9D9D'' \<and>
   getAttribute (svg (snd (extractSvgData (Flag_mounted crescent_flag Null))) ! 2) ''fill'' =
     Str ''#9D9D9D'' \<and>
   getAttribute (svg (snd (extractSvgData (Flag_mounted crescent_flag Null))) ! 3) ''fill'' =
     Str ''#909090''"
proof -
  have h2: "length (shape_groups crescent_flag) \<le> 4" by code_simp
  have m: "1 \<in> set (querySelectorAll crescent_flag)" "2 \<in> set (querySelectorAll crescent_flag)"
    "3 \<in> set (querySelectorAll crescent_flag)" by code_simp+
  have g: "rev initial_grays ! group_index crescent_flag 1 = ''#9D9D9D''"
    "rev initial_grays ! group_index crescent_flag 2 = ''#9D9D9D''"
    "rev initial_grays ! group_index crescent_flag 3 = ''#909090''" by code_simp+
  show ?thesis
    using placeholder_colour_per_group [OF crescent_ok h2, of Null] h2 m g
    by simp
qed

text \<open>
  Claim C8. On a document of five groups whose fifth shape has the \<open>id\<close>
  \<^verbatim>\<open>valueOf\<close>, the palette is empty when that surplus shape is reached, but
  \<open>extractSvgData\<close> does not pop from it: the read \<^verbatim>\<open>newFlagComponents[id]\<close> finds the
  inherited member, the spread throws first, and the surplus shape keeps its own
  \<open>fill\<close>.
\<close>
theorem inherited_id_throws_before_pop:
  "4 < length (shape_groups valueOf_flag) \<and>
   4 \<in> set (querySelectorAll valueOf_flag) \<and>
   4 \<le> group_index valueOf_flag 4 \<and>
   fst (extractSvgData (Flag_mounted valueOf_flag Null)) = Some TypeError \<and>
   getAttribute (svg (snd (extractSvgData (Flag_mounted valueOf_flag Null))) ! 4) ''fill'' =
     Str ''#3A7728'' \<and>
   grays (snd (forEach_extract (querySelectorAll valueOf_flag)
                 (extract_init (Flag_mounted valueOf_flag Null)))) = []"
  by code_simp

text \<open>
  Apart from ids that name an inherited member, the underflow is as described. With more
  than four groups the grouping returns, every shape of the fifth and later groups has
  its \<open>fill\<close> set from \<^verbatim>\<open>undefined\<close>, such a shape exists, and the palette ends empty,
  where \<open>pop\<close> returns \<^verbatim>\<open>undefined\<close>.
\<close>
lemma palette_underflow_paints_undefined:
  assumes "no_inherited_ids doc" and "4 < length (shape_groups doc)"
  shows "fst (extractSvgData (Flag_mounted doc c)) = None \<and>
         (\<forall>i \<in> set (querySelectorAll doc). 4 \<le> group_index doc i \<longrightarrow>
            getAttribute (svg (snd (extractSvgData (Flag_mounted doc c))) ! i) ''fill'' =
              Str ''undefined'') \<and>
         (\<exists>i \<in> set (querySelectorAll doc). 4 \<le> group_index doc i) \<and>
         pop (grays (snd (forEach_extract (querySelectorAll doc)
                            (extract_init (Flag_mounted doc c))))) = (Undefined, [])"
proof -
  let ?s = "snd (extractSvgData (Flag_mounted doc c))"
  have fill: "getAttribute (svg ?s ! i) ''fill'' = Str ''undefined''"
    if "i \<in> set (querySelectorAll doc)" "4 \<le> group_index doc i" for i
    using extractSvgData_fills(2) [OF assms(1) that(1), of c] that(2)
    by (simp add: getAttribute_setAttribute popped_def initial_grays_def)
  have "shape_groups doc ! 4 \<in> set (shape_groups doc)" using assms(2) by simp
  then obtain i where i: "i \<in> set (querySelectorAll doc)" "group_of doc i = shape_groups doc ! 4"
    by (auto simp: shape_groups_def set_seen_groups)
  have "distinct (shape_groups doc)"
    by (simp add: shape_groups_def seen_groups_def distinct_first_occurrences)
  then have "index_of (shape_groups doc ! 4) (shape_groups doc) = 4"
    using assms(2) index_of_less [of "shape_groups doc ! 4" "shape_groups doc"]
      nth_index_of [of "shape_groups doc ! 4" "shape_groups doc"]
    by (simp add: nth_eq_iff_index_eq)
  then have "4 \<le> group_index doc i"
    using i(2) by (simp add: group_index_def)
  then have ex: "\<exists>i \<in> set (querySelectorAll doc). 4 \<le> group_index doc i"
    using i(1) by blast
  obtain x where x: "forEach_extract (querySelectorAll doc) (extract_init (Flag_mounted doc c)) = (None, x)"
    and inv: "extract_inv doc (querySelectorAll doc) x"
    using forEach_extract_fills [OF assms(1)] by blast
  have "grays x = []"
    using inv assms(2) by (simp add: extract_inv_def shape_groups_seen initial_grays_def)
  then have "pop (grays (snd (forEach_extract (querySelectorAll doc)
                            (extract_init (Flag_mounted doc c))))) = (Undefined, [])"
    by (simp add: x pop_def)
  then show ?thesis
    using extractSvgData_fills(1) [OF assms(1), of c] fill ex by blast
qed

text \<open>Five stripes without \<open>id\<close>: the fifth one is painted from \<^verbatim>\<open>undefined\<close>.\<close>
lemma palette_underflow_paints_undefined_example:
  "4 < length (shape_groups five_stripes) \<and>
   fst (extractSvgData (Flag_mounted five_stripes Null)) = None \<and>
   getAttribute (svg (snd (extractSvgData (Flag_mounted five_stripes Null))) ! 4) ''fill'' =
     Str ''undefined''"
proof -
  have h1: "no_inherited_ids five_stripes" by code_simp
  have h2: "4 < length (shape_groups five_stripes)" by code_simp
  have m: "4 \<in> set (querySelectorAll five_stripes)" by code_simp
  have g: "4 \<le> group_index five_stripes 4" by code_simp
  show ?thesis
    using palette_underflow_paints_undefined [OF h1 h2, of Null] h2 m g
    by simp
qed

text \<open>
  Claim C9, for a shape that no other shape encloses. In a loaded document, after any
  colour selections and clicks, a click on a shape \<open>i\<close> without \<open>id\<close> (absent or
  empty), none of whose enclosing elements is a shape, sets the \<open>fill\<close> of that shape
  to the selected colour and leaves every other element of the document as it was.
\<close>
theorem click_without_identity_repaints_one_shape:
  assumes "extractSvgData (Flag_mounted doc c0) = (None, s1)"
    and "i \<in> set (querySelectorAll doc)"
    and "\<not> truthy (getAttribute (doc ! i) ''id'')"
    and "\<forall>a \<in> set (ancestors doc i). a \<notin> set (querySelectorAll doc)"
    and "s = selectedColor_effect c (fold apply_event evs s1)"
  shows "getAttribute (svg (click i s) ! i) ''fill'' = Str (ToString c) \<and>
         length (svg (click i s)) = length (svg s) \<and>
         (\<forall>j<length (svg s). j \<noteq> i \<longrightarrow> svg (click i s) ! j = svg s ! j)"
proof -
  have w: "wired doc s"
    unfolding assms(5)
    using wired_apply_event [of doc "fold apply_event evs s1" "ColourSelected c"]
      wired_fold [OF extractSvgData_wired [OF assms(1)], of evs]
    by simp
  then have "length (svg s) = length doc" by (simp add: wired_def same_shapes_def)
  then have i: "i < length (svg s)" using assms(2) by (simp add: set_querySelectorAll)
  obtain col where "click i s = componentClick i (getAttribute (doc ! i) ''id'') col s"
    using click_unenclosed [OF w assms(2) assms(4)] by auto
  then have "click i s = s\<lparr>svg := (svg s)[i := setAttribute (svg s ! i) ''fill'' (selectedColorRef s)]\<rparr>"
    using assms(3) by (simp add: componentClick_falsy)
  moreover have "selectedColorRef s = c" by (simp add: assms(5) selectedColor_effect_def)
  ultimately show ?thesis using i by (simp add: getAttribute_setAttribute)
qed

text \<open>
  The crescent flag with blue selected: a click on the star, which nothing encloses,
  paints the star and leaves the moon unchanged.
\<close>
theorem click_without_identity_repaints_one_shape_witness:
  "extractSvgData (Flag_mounted crescent_flag (Str ''#FFFFFF'')) =
     (None, snd (extractSvgData (Flag_mounted crescent_flag (Str ''#FFFFFF'')))) \<and>
   3 \<in> set (querySelectorAll crescent_flag) \<and>
   \<not> truthy (getAttribute (crescent_flag ! 3) ''id'') \<and>
   ancestors crescent_flag 3 = [] \<and>
   getAttribute
     (svg (click 3 (selectedColor_effect (Str ''#003DA5'')
             (snd (extractSvgData (Flag_mounted crescent_flag (Str ''#FFFFFF'')))))) ! 3)
     ''fill'' = Str ''#003DA5'' \<and>
   svg (click 3 (selectedColor_effect (Str ''#003DA5'')
             (snd (extractSvgData (Flag_mounted crescent_flag (Str ''#FFFFFF'')))))) ! 1 =
   svg (selectedColor_effect (Str ''#003DA5'')
             (snd (extractSvgData (Flag_mounted crescent_flag (Str ''#FFFFFF''))))) ! 1"
proof -
  let ?s1 = "snd (extractSvgData (Flag_mounted crescent_flag (Str ''#FFFFFF'')))"
  have h1: "extractSvgData (Flag_mounted crescent_flag (Str ''#FFFFFF'')) = (None, ?s1)"
    using loaded_crescent by (simp add: prod_eq_iff)
  have h2: "3 \<in> set (querySelectorAll crescent_flag)" by code_simp
  have h3: "\<not> truthy (getAttribute (crescent_flag ! 3) ''id'')" by code_simp
  have a: "ancestors crescent_flag 3 = []" by code_simp
  then have h4: "\<forall>a \<in> set (ancestors crescent_flag 3). a \<notin> set (querySelectorAll crescent_flag)"
    by simp
  have h5: "selectedColor_effect (Str ''#003DA5'') ?s1 =
            selectedColor_effect (Str ''#003DA5'') (fold apply_event [] ?s1)" by simp
  have len: "length (svg (selectedColor_effect (Str ''#003DA5'') ?s1)) = 4" by code_simp
  show ?thesis
    using click_without_identity_repaints_one_shape [OF h1 h2 h3 h4 h5] h1 h2 h3 a len
    by simp
qed

text \<open>
  Claim C9 as stated fails when a shape encloses the clicked one. In the nested flag the
  disc has no \<open>id\<close> and lies inside a group element that is a shape too: after the
  load the group carries the first gray, and a click on the disc with blue selected
  paints the disc and, on its way up, the group as well.
\<close>
theorem click_without_identity_repaints_one_shape_counterexample:
  "fst (extractSvgData (Flag_mounted nested_flag Null)) = None \<and>
   querySelectorAll nested_flag = [0, 1] \<and>
   getAttribute (nested_flag ! 1) ''id'' = Null \<and>
   getAttribute
     (svg (selectedColor_effect (Str ''#003DA5'')
             (snd (extractSvgData (Flag_mounted nested_flag Null)))) ! 0)
     ''fill'' = Str ''#A7A7A7'' \<and>
   getAttribute
     (svg (click 1 (selectedColor_effect (Str ''#003DA5'')
             (snd (extractSvgData (Flag_mounted nested_flag Null))))) ! 1)
     ''fill'' = Str ''#003DA5'' \<and>
   getAttribute
     (svg (click 1 (selectedColor_effect (Str ''#003DA5'')
             (snd (extractSvgData (Flag_mounted nested_flag Null))))) ! 0)
     ''fill'' = Str ''#003DA5''"
  by code_simp

text \<open>
  Claim C10. The first render has \<open>color = '#FFFFFF'\<close> and the picker's selected colour
  \<^verbatim>\<open>null\<close>. Mounting invokes \<open>selectColor\<close> exactly once, with \<^verbatim>\<open>null\<close>, which
  sets the application's colour to \<^verbatim>\<open>null\<close>. Through any events other than a swatch
  click the colour, the ref of \<open>Flag\<close> and the list of invocations stay so, and the
  first swatch click sets the colour to that swatch.
\<close>
theorem colour_is_null_until_swatch_clicked:
  "color App_first_render = Str ''#FFFFFF'' \<and>
   picker_selectedColor App_first_render = Null \<and>
   picker_selectedColor App_mounted = Null \<and>
   selectColor_calls App_mounted = [Null] \<and>
   color App_mounted = Null \<and>
   ((\<forall>ev \<in> set evs. \<not> is_swatch_click ev) \<longrightarrow>
      color (fold app_step evs App_mounted) = Null \<and>
      selectColor_calls (fold app_step evs App_mounted) = [Null] \<and>
      selectedColorRef (view (fold app_step evs App_mounted)) = Null \<and>
      color (app_step (SwatchClicked c) (fold app_step evs App_mounted)) = Str c)"
proof -
  have "color (app_step (SwatchClicked c) a) = Str c" if "no_colour_picked a" for a
    using that
    by (simp add: no_colour_picked_def setSelectedColor_def ColourPicker_effect_def
        selectColor_def setColor_def)
  then show ?thesis
    using no_colour_picked_fold [OF no_colour_picked_mounted, of evs] no_colour_picked_mounted
    by (auto simp: no_colour_picked_def App_first_render_def)
qed

text \<open>
  A flag is injected and its moon clicked before any swatch: the colour is still
  \<^verbatim>\<open>null\<close>; the yellow swatch then makes it yellow.
\<close>
theorem colour_is_null_until_swatch_clicked_witness:
  "\<not> is_swatch_click (SvgInjected crescent_flag) \<and> \<not> is_swatch_click (ShapeClicked 1) \<and>
   color (fold app_step [SvgInjected crescent_flag, ShapeClicked 1] App_mounted) = Null \<and>
   selectColor_calls (fold app_step [SvgInjected crescent_flag, ShapeClicked 1] App_mounted) = [Null] \<and>
   color (app_step (SwatchClicked ''#FFCD00'')
            (fold app_step [SvgInjected crescent_flag, ShapeClicked 1] App_mounted)) =
     Str ''#FFCD00''"
proof -
  have h: "\<forall>ev \<in> set [SvgInjected crescent_flag, ShapeClicked 1]. \<not> is_swatch_click ev"
    by simp
  show ?thesis
    using colour_is_null_until_swatch_clicked
      [of "[SvgInjected crescent_flag, ShapeClicked 1]" "''#FFCD00''"] h
    by simp
qed

section \<open>The claims about the generator\<close>

text \<open>
  Claim C4. Whatever regions the background contributes, the layout raises
  \<open>InsufficientColours\<close> exactly when the colour list is shorter than the number of
  regions demanded (background and directives); otherwise it returns every region, in
  order, each with the colour at its position in the list, so that no region is dropped.
\<close>
theorem insufficient_colours_iff:
  "layout background inner_radius cv ds cs =
     (if length cs < regions_demanded background inner_radius cv ds
      then Inl InsufficientColours
      else Inr (map make_region
                  (zip (background cv ds @ concat (map (shapes_of inner_radius cv) ds)) cs)))"
proof (cases "length cs < length (background cv ds)")
  case True
  then show ?thesis
    by (simp add: layout_def regions_demanded_def claim_colours_short)
next
  case False
  let ?n = "length (background cv ds)"
  have "(length (drop ?n cs) < sum_list (map (\<lambda>d. length (shapes_of inner_radius cv d)) ds)) =
        (length cs < regions_demanded background inner_radius cv ds)"
    using False by (auto simp: regions_demanded_def)
  then show ?thesis
    using False lay_out_directives_eq [of inner_radius cv ds "drop ?n cs"]
    by (simp add: layout_def claim_colours_enough zip_append_drop)
qed

text \<open>
  With the background rule of the examples: three equal horizontal stripes on a 5 by 3
  canvas are filled top to bottom by three colours; a lone star with a single colour
  raises \<open>InsufficientColours\<close>, since star and background demand two; and so do the
  circle, moon and star of Tunisia with three colours, since they demand four.
\<close>
theorem insufficient_colours_iff_witness:
  "layout background_unless_stripes two_fifths \<lparr>width = 5, height = 3\<rparr>
     [StripeSet Horizontal [1, 1, 1]] [''#FFB81C'', ''#046A38'', ''#BE3A34''] =
     Inr [\<lparr>r_shape = Rectangle 0 0 5 1, r_fill = ''#FFB81C''\<rparr>,
          \<lparr>r_shape = Rectangle 0 1 5 1, r_fill = ''#046A38''\<rparr>,
          \<lparr>r_shape = Rectangle 0 2 5 1, r_fill = ''#BE3A34''\<rparr>] \<and>
   layout background_unless_stripes two_fifths \<lparr>width = 360, height = 240\<rparr>
     [Star 5 197 120 30 270] [''#C8102E''] = Inl InsufficientColours \<and>
   regions_demanded background_unless_stripes two_fifths \<lparr>width = 120, height = 80\<rparr>
     [Circle 60 40 20, Moon 60 40 15 4 0 12, Star 5 64 40 8 270] = 4 \<and>
   layout background_unless_stripes two_fifths \<lparr>width = 120, height = 80\<rparr>
     [Circle 60 40 20, Moon 60 40 15 4 0 12, Star 5 64 40 8 270]
     [''#C8102E'', ''#FFFFFF'', ''#C8102E''] = Inl InsufficientColours"
  using insufficient_colours_iff [of background_unless_stripes two_fifths
      "\<lparr>width = 5, height = 3\<rparr>" "[StripeSet Horizontal [1, 1, 1]]"
      "[''#FFB81C'', ''#046A38'', ''#BE3A34'']"]
    insufficient_colours_iff [of background_unless_stripes two_fifths
      "\<lparr>width = 360, height = 240\<rparr>" "[Star 5 197 120 30 270]" "[''#C8102E'']"]
    insufficient_colours_iff [of background_unless_stripes two_fifths
      "\<lparr>width = 120, height = 80\<rparr>"
      "[Circle 60 40 20, Moon 60 40 15 4 0 12, Star 5 64 40 8 270]"
      "[''#C8102E'', ''#FFFFFF'', ''#C8102E'']"]
  by (simp add: regions_demanded_def background_unless_stripes_def stripe_segments_def
      make_region_def)

text \<open>
  Claim C6. For a \<open>StripeSet\<close> of either orientation with a non-empty sequence of
  positive ratios, one segment is emitted per ratio, segment \<open>k\<close> extends over
  canvas dimension \<open>\<times>\<close> ratio \<open>/\<close> sum of ratios and starts where the segments before
  it end, and the extents add up to the canvas dimension.
\<close>
theorem stripe_set_fills_canvas:
  assumes "ratios \<noteq> []" and "\<forall>r \<in> set ratios. 0 < r"
  shows "length (shapes_of inner_radius cv (StripeSet ori ratios)) = length ratios \<and>
         (\<forall>k<length ratios.
            segment_extent ori (shapes_of inner_radius cv (StripeSet ori ratios) ! k) =
              canvas_extent ori cv * (ratios ! k) / sum_list ratios \<and>
            segment_start ori (shapes_of inner_radius cv (StripeSet ori ratios) ! k) =
              sum_list (map (segment_extent ori)
                          (take k (shapes_of inner_radius cv (StripeSet ori ratios))))) \<and>
         sum_list (map (segment_extent ori) (shapes_of inner_radius cv (StripeSet ori ratios))) =
           canvas_extent ori cv"
proof -
  let ?shs = "shapes_of inner_radius cv (StripeSet ori ratios)"
  let ?e = "canvas_extent ori cv"
  have len: "length ?shs = length ratios"
    by (cases ori) (simp_all add: stripe_segments_def)
  have ext: "map (segment_extent ori) ?shs = map (\<lambda>r. ?e * r / sum_list ratios) ratios"
    by (rule nth_equalityI) (simp_all add: len stripe_shapes_nth)
  have pos: "sum_list ratios \<noteq> 0" using sum_list_pos [OF assms] by simp
  have total: "sum_list (map (segment_extent ori) ?shs) = ?e"
    using pos by (simp add: ext sum_list_scaled)
  have start: "segment_start ori (?shs ! k) = sum_list (map (segment_extent ori) (take k ?shs))"
    if "k < length ratios" for k
    using stripe_shapes_nth(1) [OF that, of ori inner_radius cv]
    by (simp add: take_map [symmetric] ext)
  show ?thesis using len total start stripe_shapes_nth(2) by simp
qed

text \<open>
  Ratios 6, 1, 4, 1, 6 on a canvas of height 18: the middle stripe is 4 high and the
  heights add up to 18.
\<close>
theorem stripe_set_fills_canvas_witness:
  "[6, 1, 4, 1, 6] \<noteq> ([] :: real list) \<and>
   segment_extent Horizontal
     (shapes_of two_fifths \<lparr>width = 27, height = 18\<rparr> (StripeSet Horizontal [6, 1, 4, 1, 6]) ! 2) = 4 \<and>
   sum_list (map (segment_extent Horizontal)
     (shapes_of two_fifths \<lparr>width = 27, height = 18\<rparr> (StripeSet Horizontal [6, 1, 4, 1, 6]))) = 18"
proof -
  let ?shs = "shapes_of two_fifths \<lparr>width = 27, height = 18\<rparr> (StripeSet Horizontal [6, 1, 4, 1, 6])"
  let ?cv = "\<lparr>width = 27, height = 18\<rparr>"
  have h1: "[6, 1, 4, 1, 6] \<noteq> ([] :: real list)" by simp
  have h2: "\<forall>r \<in> set [6, 1, 4, 1, 6 :: real]. 0 < r" by simp
  note T = stripe_set_fills_canvas [OF h1 h2, where ori = Horizontal
        and inner_radius = two_fifths and cv = ?cv]
  from T have "\<forall>k<length [6, 1, 4, 1, 6 :: real].
      segment_extent Horizontal (?shs ! k) =
        canvas_extent Horizontal ?cv * ([6, 1, 4, 1, 6] ! k) / sum_list [6, 1, 4, 1, 6] \<and>
      segment_start Horizontal (?shs ! k) = sum_list (map (segment_extent Horizontal) (take k ?shs))"
    by (rule conjunct1 [OF conjunct2])
  then have "2 < length [6, 1, 4, 1, 6 :: real] \<longrightarrow>
      segment_extent Horizontal (?shs ! 2) =
        canvas_extent Horizontal ?cv * ([6, 1, 4, 1, 6] ! 2) / sum_list [6, 1, 4, 1, 6] \<and>
      segment_start Horizontal (?shs ! 2) = sum_list (map (segment_extent Horizontal) (take 2 ?shs))"
    by (rule spec)
  then have a: "segment_extent Horizontal (?shs ! 2) =
        canvas_extent Horizontal ?cv * ([6, 1, 4, 1, 6] ! 2) / sum_list [6, 1, 4, 1, 6]"
    by simp
  have b: "canvas_extent Horizontal ?cv * ([6, 1, 4, 1, 6] ! 2) / sum_list [6, 1, 4, 1, 6] = 4"
    by (simp add: canvas_extent_def)
  from T have "sum_list (map (segment_extent Horizontal) ?shs) = canvas_extent Horizontal ?cv"
    by (rule conjunct2 [OF conjunct2])
  then have c: "sum_list (map (segment_extent Horizontal) ?shs) = 18"
    by (simp only: canvas_extent_def orientation.case canvas.simps)
  have a': "segment_extent Horizontal (?shs ! 2) = 4" using a b by (simp only:)
  show ?thesis by (intro conjI h1 a' c)
qed

text \<open>
  Claim C7. A \<open>Star\<close> is emitted as one polygon of \<open>2 \<times> points\<close> vertices. Vertex
  \<open>k\<close> lies at distance \<open>r\<close> from the centre when \<open>k\<close> is even and at the inner
  radius when it is odd, at the angle \<open>rotationDegrees\<close> plus \<open>k\<close> steps of
  \<open>\<pi> / points\<close>; the first vertex lies at the angle \<open>rotationDegrees\<close>.
\<close>
theorem star_vertices_alternate_on_two_circles:
  assumes "0 \<le> r" and "0 \<le> inner_radius points r" and "k < 2 * points"
  shows "shapes_of inner_radius cv (Star points cx cy r rot) =
           [Polygon (star_vertices (inner_radius points r) points cx cy r rot)] \<and>
         length (star_vertices (inner_radius points r) points cx cy r rot) = 2 * points \<and>
         distance (star_vertices (inner_radius points r) points cx cy r rot ! k) (cx, cy) =
           (if even k then r else inner_radius points r) \<and>
         star_vertices (inner_radius points r) points cx cy r rot ! k =
           (cx + (if even k then r else inner_radius points r) *
                   cos (rot * pi / 180 + real k * (pi / real points)),
            cy + (if even k then r else inner_radius points r) *
                   sin (rot * pi / 180 + real k * (pi / real points))) \<and>
         star_vertices (inner_radius points r) points cx cy r rot ! 0 =
           (cx + r * cos (rot * pi / 180), cy + r * sin (rot * pi / 180))"
proof -
  have 0: "0 < 2 * points" using assms(3) by simp
  show ?thesis
    using assms dist_polar [of cx "if even k then r else inner_radius points r"
        "rot * pi / 180 + real k * pi / real points" cy]
    by (simp add: star_vertices_nth [OF assms(3)] star_vertices_nth [OF 0] star_vertex_def Let_def)
qed

text \<open>
  A five-pointed star of radius 30 rotated by 270 degrees: its second vertex lies at the
  inner radius 12 from the centre.
\<close>
theorem star_vertices_alternate_on_two_circles_witness:
  "(0::real) \<le> 30 \<and> 0 \<le> two_fifths 5 30 \<and> (1::nat) < 2 * 5 \<and>
   distance (star_vertices (two_fifths 5 30) 5 197 120 30 270 ! 1) (197, 120) = 12"
proof -
  have h1: "(0::real) \<le> 30" by simp
  have h2: "0 \<le> two_fifths 5 30" by (simp add: two_fifths_def)
  have h3: "(1::nat) < 2 * 5" by simp
  note T = star_vertices_alternate_on_two_circles [where inner_radius = two_fifths
        and points = 5 and r = 30 and k = 1 and cx = 197 and cy = 120
        and rot = 270 and cv = "\<lparr>width = 360, height = 240\<rparr>", OF h1 h2 h3]
  from T have "distance (star_vertices (two_fifths 5 30) 5 197 120 30 270 ! 1) (197, 120) =
      (if even (1::nat) then 30 else two_fifths 5 30)"
    by (rule conjunct1 [OF conjunct2 [OF conjunct2]])
  then have d: "distance (star_vertices (two_fifths 5 30) 5 197 120 30 270 ! 1) (197, 120) = 12"
    by (simp add: two_fifths_def)
  show ?thesis by (intro conjI h1 h2 h3 d)
qed

end
